theory Spec2Isabelle
  imports Main "HOL-Library.Word" "HOL-Library.Sublist"
begin

section \<open>The chat page \<^verbatim>\<open>frontend/app/page.tsx\<close>: session lifecycle and message log\<close>

text \<open>
  The page is one React component, \<^verbatim>\<open>Home\<close>, with three effects (identity
  resolution, history load, WebSocket) and one dispatcher, \<^verbatim>\<open>sendMessage\<close>.
  The embedding is a state record holding the component's state cells, the browser
  objects it touches (\<^verbatim>\<open>localStorage\<close>, the WebSocket objects) and the trace of
  the calls it makes to the outside; every callback of the source is a function on that
  record, and one browser event is one \<open>step\<close>.
\<close>

subsection \<open>JavaScript strings and numbers\<close>

text \<open>
  A JavaScript string is a sequence of UTF-16 code units. \<open>js\<close> writes an ASCII
  literal of the source as such a sequence.
\<close>

type_synonym jschar = "16 word"
type_synonym jsstring = "jschar list"

definition js :: "string \<Rightarrow> jsstring" where
  "js cs = map of_char cs"

text \<open>
  The identifier has TypeScript type \<^verbatim>\<open>number\<close>, an IEEE 754 double. The values
  it takes here are the integers a double holds exactly, \<^verbatim>\<open>-0\<close>, \<^verbatim>\<open>NaN\<close> and the
  two infinities: what \<^verbatim>\<open>parseInt\<close> returns and what \<^verbatim>\<open>res.json()\<close> makes of an
  integer in the response body.
\<close>

datatype jsnum = JInt int | JNegZero | JNaN | JInfinity | JNegInfinity

text \<open>
  The Number value of a mathematical integer: the nearest double, ties to the even
  significand. \<open>round53\<close> keeps the 53 leading bits of a natural number; a result of
  \<open>2^1024\<close> or more is an infinity. ECMAScript lets an implementation approximate
  after the 20th significant digit; the engines round correctly, and so does the model.
\<close>

fun bitlen :: "nat \<Rightarrow> nat" where
  "bitlen m = (if m = 0 then 0 else Suc (bitlen (m div 2)))"

declare bitlen.simps [simp del]

definition round53 :: "nat \<Rightarrow> nat" where
  "round53 m =
     (if m < 2 ^ 53 then m
      else (let e = bitlen m - 53; q = m div 2 ^ e; r = m mod 2 ^ e; h = 2 ^ (e - 1)
            in (if h < r \<or> (r = h \<and> odd q) then q + 1 else q) * 2 ^ e))"

definition to_double :: "int \<Rightarrow> jsnum" where
  "to_double n =
     (let r = round53 (nat \<bar>n\<bar>)
      in if 2 ^ 1024 \<le> r then (if n < 0 then JNegInfinity else JInfinity)
         else JInt (if n < 0 then - int r else int r))"

text \<open>
  ECMAScript \<^verbatim>\<open>WhiteSpace\<close> and \<^verbatim>\<open>LineTerminator\<close>: what
  \<^verbatim>\<open>String.prototype.trim\<close> strips at both ends and \<^verbatim>\<open>parseInt\<close> skips in front.
\<close>

definition isWhiteSpace :: "jschar \<Rightarrow> bool" where
  "isWhiteSpace c =
     (c = 0x0009 \<or> c = 0x000A \<or> c = 0x000B \<or> c = 0x000C \<or> c = 0x000D \<or> c = 0x0020 \<or>
      c = 0x00A0 \<or> c = 0x1680 \<or> (0x2000 \<le> c \<and> c \<le> 0x200A) \<or> c = 0x2028 \<or>
      c = 0x2029 \<or> c = 0x202F \<or> c = 0x205F \<or> c = 0x3000 \<or> c = 0xFEFF)"

definition trim :: "jsstring \<Rightarrow> jsstring" where
  "trim s = rev (dropWhile isWhiteSpace (rev (dropWhile isWhiteSpace s)))"

definition isDigit :: "jschar \<Rightarrow> bool" where
  "isDigit c = (0x30 \<le> c \<and> c \<le> 0x39)"

definition digitVal :: "jschar \<Rightarrow> int" where
  "digitVal c = uint c - 48"

text \<open>
  \<^verbatim>\<open>parseInt(s, 10)\<close>: skip leading white space, read an optional sign, take the
  longest run of decimal digits; no digit gives \<^verbatim>\<open>NaN\<close>, and whatever follows the
  digits is ignored. The value of the digits becomes a double; a zero after a minus
  sign is \<^verbatim>\<open>-0\<close>.
\<close>

definition parseInt :: "jsstring \<Rightarrow> jsnum" where
  "parseInt s =
     (let S = dropWhile isWhiteSpace s;
          sign = (case S of c # _ \<Rightarrow> if c = 0x2D then - 1 else 1 | [] \<Rightarrow> (1::int));
          S' = (case S of c # r \<Rightarrow> if c = 0x2B \<or> c = 0x2D then r else S | [] \<Rightarrow> S);
          Z = takeWhile isDigit S';
          mathInt = foldl (\<lambda>a c. 10 * a + digitVal c) 0 Z
      in if Z = [] then JNaN
         else if mathInt = 0 then (if sign = - 1 then JNegZero else JInt 0)
         else to_double (sign * mathInt))"

text \<open>
  \<^verbatim>\<open>String(n)\<close> and the \<^verbatim>\<open>${n}\<close> of a template literal (\<^verbatim>\<open>Number::toString\<close>).
  \<open>digits\<close> is the decimal expansion of a natural number. Below \<open>2^53\<close> every
  integer is a double of its own and is printed in full. From \<open>2^53\<close> on, the digits
  printed are those of \<open>shortest\<close>: the decimal number with the fewest significant
  digits that still rounds to the double, the closest such number if there are two
  (\<open>k\<close> counts the significant digits tried). A number of more than 21 digits is
  printed in exponent notation.
\<close>

definition digitChar :: "nat \<Rightarrow> jschar" where
  "digitChar d = of_nat (48 + d)"

fun digits :: "nat \<Rightarrow> jsstring" where
  "digits n = (if n < 10 then [digitChar n] else digits (n div 10) @ [digitChar (n mod 10)])"

declare digits.simps [simp del]

function shortest :: "nat \<Rightarrow> nat \<Rightarrow> nat" where
  "shortest m k =
     (let n = length (digits m) in
      if n \<le> k then m
      else (let p = 10 ^ (n - k); lo = (m div p) * p; hi = lo + p
            in if round53 lo = m \<and> round53 hi = m
               then (if m - lo < hi - m \<or> (m - lo = hi - m \<and> even (m div p)) then lo else hi)
               else if round53 lo = m then lo
               else if round53 hi = m then hi
               else shortest m (Suc k)))"
  by pat_completeness auto
termination
  by (relation "measure (\<lambda>(m, k). length (digits m) - k)") auto

declare shortest.simps [simp del]

definition exponential :: "jsstring \<Rightarrow> jsstring" where
  "exponential D =
     (let sd = rev (dropWhile (\<lambda>c. c = 0x30) (rev D));
          e = js ''e+'' @ digits (length D - 1)
      in case sd of
           [] \<Rightarrow> D
         | d # ds \<Rightarrow> if ds = [] then d # e else d # js ''.'' @ ds @ e)"

definition decimal :: "nat \<Rightarrow> jsstring" where
  "decimal m =
     (if m < 2 ^ 53 then digits m
      else (let D = digits (shortest m 1)
            in if length D \<le> 21 then D else exponential D))"

fun String_js :: "jsnum \<Rightarrow> jsstring" where
  "String_js JNaN = js ''NaN''"
| "String_js JInfinity = js ''Infinity''"
| "String_js JNegInfinity = js ''-Infinity''"
| "String_js JNegZero = js ''0''"
| "String_js (JInt n) = (if n < 0 then js ''-'' @ decimal (nat (- n)) else decimal (nat n))"

text \<open>\<^verbatim>\<open>s.replace(/^http/, "ws")\<close>: a leading \<^verbatim>\<open>http\<close> becomes \<^verbatim>\<open>ws\<close>.\<close>

definition replace_http_ws :: "jsstring \<Rightarrow> jsstring" where
  "replace_http_ws s = (if take 4 s = js ''http'' then js ''ws'' @ drop 4 s else s)"

subsection \<open>Data model\<close>

datatype sender = User | Bot

text \<open>\<^verbatim>\<open>type Message = { id?: number; sender: "user" | "bot"; content: string }\<close>\<close>

record message =
  msg_id :: "int option"
  sender :: sender
  content :: jsstring

text \<open>
  A record of the history response. Its shape is not declared in the source
  (\<^verbatim>\<open>msgs: any[]\<close>); it is the remote contract's
  \<^verbatim>\<open>{ id: integer, sender: string, content: string }\<close>.
\<close>

record server_message =
  m_id :: int
  m_sender :: jsstring
  m_content :: jsstring

datatype ready_state = CONNECTING | OPEN | CLOSING | CLOSED

text \<open>A WebSocket object: its URL, its \<^verbatim>\<open>readyState\<close>, the frames handed to \<^verbatim>\<open>send\<close>.\<close>

record websocket =
  url :: jsstring
  readyState :: ready_state
  sent :: "jsstring list"

datatype http_method = GET | POST

text \<open>
  What the component does to the outside, in the order it does it. Console entries
  carry the text of their first argument.
\<close>

datatype effect =
    ConsoleLog string
  | ConsoleError string
  | Alert string
  | Fetch http_method jsstring
  | SetItem jsstring jsstring
  | NewWebSocket nat jsstring
  | Send nat jsstring
  | Close nat

datatype phase = Fresh | Mounted | Dismissed

text \<open>
  The state. \<open>conversationId\<close>, \<open>messages\<close>, \<open>input\<close> are the \<^verbatim>\<open>useState\<close>
  cells and \<open>socketRef\<close> the \<^verbatim>\<open>useRef\<close> cell (\<^verbatim>\<open>hasCreatedConvo\<close> is never read
  or written and is left out). A socket is named by its index in \<open>sockets\<close>, so that
  \<open>socketRef\<close> and the cleanup closure can alias one object. \<open>deps\<close> is the
  \<open>conversationId\<close> the history and WebSocket effects last ran with, \<open>cleanup\<close> the
  \<^verbatim>\<open>ws\<close> captured by the cleanup function the WebSocket effect last returned.
  \<open>apiUrl\<close> is \<^verbatim>\<open>process.env.NEXT_PUBLIC_API_URL\<close>. \<open>pendingCreate\<close> and
  \<open>pendingHistory\<close> count the requests in flight.
\<close>

record home =
  conversationId :: "jsnum option"
  messages :: "message list"
  input :: jsstring
  socketRef :: "nat option"
  phase :: phase
  deps :: "jsnum option"
  cleanup :: "nat option"
  apiUrl :: "jsstring option"
  localStorage :: "jsstring \<rightharpoonup> jsstring"
  sockets :: "websocket list"
  pendingCreate :: nat
  pendingHistory :: nat
  trace :: "effect list"

definition init :: "jsstring option \<Rightarrow> (jsstring \<rightharpoonup> jsstring) \<Rightarrow> home" where
  "init env store =
     \<lparr>conversationId = None, messages = [], input = [], socketRef = None,
      phase = Fresh, deps = None, cleanup = None, apiUrl = env, localStorage = store,
      sockets = [], pendingCreate = 0, pendingHistory = 0, trace = []\<rparr>"

definition emit :: "effect list \<Rightarrow> home \<Rightarrow> home" where
  "emit es s = s\<lparr>trace := trace s @ es\<rparr>"

text \<open>\<^verbatim>\<open>process.env.NEXT_PUBLIC_API_URL || "http://127.0.0.1:8000"\<close>\<close>

definition baseUrl :: "home \<Rightarrow> jsstring" where
  "baseUrl s = (case apiUrl s of
                  None \<Rightarrow> js ''http://127.0.0.1:8000''
                | Some u \<Rightarrow> if u = [] then js ''http://127.0.0.1:8000'' else u)"

definition storageKey :: jsstring where
  "storageKey = js ''conversationId''"

subsection \<open>The identity-resolution effect\<close>

text \<open>\<^verbatim>\<open>if (storedId)\<close>: \<^verbatim>\<open>null\<close> and the empty string are falsy.\<close>

fun truthy :: "jsstring option \<Rightarrow> bool" where
  "truthy None = False"
| "truthy (Some v) = (v \<noteq> [])"

definition identity_effect :: "home \<Rightarrow> home" where
  "identity_effect s =
     (case localStorage s storageKey of
        Some storedId \<Rightarrow>
          if storedId \<noteq> [] then
            (emit [ConsoleLog ''Found existing conversation ID in localStorage:''] s)
              \<lparr>conversationId := Some (parseInt storedId)\<rparr>
          else
            (emit [ConsoleLog ''No conversation in localStorage, creating new...'',
                   Fetch POST (baseUrl s @ js ''/conversations/new'')] s)
              \<lparr>pendingCreate := pendingCreate s + 1\<rparr>
      | None \<Rightarrow>
          (emit [ConsoleLog ''No conversation in localStorage, creating new...'',
                 Fetch POST (baseUrl s @ js ''/conversations/new'')] s)
            \<lparr>pendingCreate := pendingCreate s + 1\<rparr>)"

text \<open>
  The \<^verbatim>\<open>.then((data) => ...)\<close> of the creation request. \<open>n\<close> is the integer the
  response body gives for \<^verbatim>\<open>conversation_id\<close>; \<^verbatim>\<open>data.conversation_id\<close> is the double
  that \<^verbatim>\<open>res.json()\<close> has made of it.
\<close>

definition create_then :: "int \<Rightarrow> home \<Rightarrow> home" where
  "create_then n s =
     (let newId = to_double n;
          s1 = (emit [SetItem storageKey (String_js newId)] s)
                 \<lparr>localStorage := (localStorage s)(storageKey \<mapsto> String_js newId)\<rparr>;
          s2 = s1\<lparr>conversationId := Some newId\<rparr>
      in emit [ConsoleLog ''Created conversation id:''] s2)"

definition create_catch :: "home \<Rightarrow> home" where
  "create_catch s = emit [ConsoleError ''Failed to create conversation:''] s"

subsection \<open>The history-load effect\<close>

text \<open>The effect body, run with the \<open>conversationId\<close> of the render it belongs to.\<close>

definition history_effect :: "jsnum option \<Rightarrow> home \<Rightarrow> home" where
  "history_effect cid s =
     (case cid of
        None \<Rightarrow> s
      | Some i \<Rightarrow>
          (emit [ConsoleLog ''Fetching messages for convo:'',
                 Fetch GET (baseUrl s @ js ''/conversations/'' @ String_js i @ js ''/messages'')] s)
            \<lparr>pendingHistory := pendingHistory s + 1\<rparr>)"

definition load_message :: "server_message \<Rightarrow> message" where
  "load_message m =
     \<lparr>msg_id = Some (m_id m),
      sender = (if m_sender m = js ''user'' then User else Bot),
      content = m_content m\<rparr>"

definition history_then :: "server_message list \<Rightarrow> home \<Rightarrow> home" where
  "history_then msgs s =
     (let loaded = map load_message msgs
      in (emit [ConsoleLog ''Loaded messages from DB:''] s)\<lparr>messages := loaded\<rparr>)"

definition history_catch :: "home \<Rightarrow> home" where
  "history_catch s = emit [ConsoleError ''Failed to fetch conversation messages:''] s"

subsection \<open>The WebSocket effect\<close>

text \<open>
  \<^verbatim>\<open>ws.close()\<close>: a socket that is connecting or open starts closing; on one that is
  closing or closed the call does nothing.
\<close>

definition ws_close :: "nat \<Rightarrow> home \<Rightarrow> home" where
  "ws_close i s =
     (if i < length (sockets s) then
        (emit [Close i] s)
          \<lparr>sockets := (sockets s)
             [i := (if readyState (sockets s ! i) = CONNECTING \<or> readyState (sockets s ! i) = OPEN
                    then (sockets s ! i)\<lparr>readyState := CLOSING\<rparr> else sockets s ! i)]\<rparr>
      else s)"

definition ws_effect :: "jsnum option \<Rightarrow> home \<Rightarrow> home" where
  "ws_effect cid s =
     (case cid of
        None \<Rightarrow> s\<lparr>cleanup := None\<rparr>
      | Some i \<Rightarrow>
          (let wsUrl = replace_http_ws (baseUrl s) @ js ''/ws/chat?conversation_id='' @ String_js i;
               ws = length (sockets s)
           in (emit [ConsoleLog ''Opening WebSocket for conversation:'', NewWebSocket ws wsUrl] s)
                \<lparr>sockets := sockets s @ [\<lparr>url = wsUrl, readyState = CONNECTING, sent = []\<rparr>],
                 socketRef := Some ws,
                 cleanup := Some ws\<rparr>))"

text \<open>The function the effect returned, if it returned one.\<close>

definition ws_cleanup :: "home \<Rightarrow> home" where
  "ws_cleanup s =
     (case cleanup s of
        None \<Rightarrow> s
      | Some ws \<Rightarrow> (ws_close ws (emit [ConsoleLog ''Cleaning up WebSocket...''] s))\<lparr>cleanup := None\<rparr>)"

definition ws_onopen :: "home \<Rightarrow> home" where
  "ws_onopen s = emit [ConsoleLog ''WebSocket connected to conversation:''] s"

text \<open>\<^verbatim>\<open>const botMsg: Message = { sender: "bot", content: event.data }\<close>\<close>

definition botMsg :: "jsstring \<Rightarrow> message" where
  "botMsg data = \<lparr>msg_id = None, sender = Bot, content = data\<rparr>"

definition ws_onmessage :: "jsstring \<Rightarrow> home \<Rightarrow> home" where
  "ws_onmessage data s =
     (emit [ConsoleLog ''WS received:''] s)\<lparr>messages := messages s @ [botMsg data]\<rparr>"

definition ws_onclose :: "home \<Rightarrow> home" where
  "ws_onclose s = emit [ConsoleLog ''WebSocket closed''] s"

definition ws_onerror :: "home \<Rightarrow> home" where
  "ws_onerror s = emit [ConsoleError ''WebSocket error''] s"

subsection \<open>The dispatcher\<close>

text \<open>
  \<^verbatim>\<open>socketRef.current.send(text)\<close>: an open socket takes the frame; a closing or closed
  one drops it; a connecting one raises \<^verbatim>\<open>InvalidStateError\<close> (\<open>None\<close>).
\<close>

definition ws_send :: "nat \<Rightarrow> jsstring \<Rightarrow> home \<Rightarrow> home option" where
  "ws_send i text s =
     (if i < length (sockets s) then
        (case readyState (sockets s ! i) of
           CONNECTING \<Rightarrow> None
         | OPEN \<Rightarrow> Some ((emit [Send i text] s)
                     \<lparr>sockets := (sockets s)[i := (sockets s ! i)\<lparr>sent := sent (sockets s ! i) @ [text]\<rparr>]\<rparr>)
         | CLOSING \<Rightarrow> Some s
         | CLOSED \<Rightarrow> Some s)
      else None)"

text \<open>The \<^verbatim>\<open>readyState\<close> of socket \<open>i\<close>, if there is such a socket.\<close>

definition ready_of :: "home \<Rightarrow> nat \<Rightarrow> ready_state option" where
  "ready_of s i = (if i < length (sockets s) then Some (readyState (sockets s ! i)) else None)"

text \<open>\<^verbatim>\<open>!socketRef.current || socketRef.current.readyState !== WebSocket.OPEN\<close>\<close>

definition not_connected :: "home \<Rightarrow> bool" where
  "not_connected s =
     (case socketRef s of None \<Rightarrow> True | Some ws \<Rightarrow> ready_of s ws \<noteq> Some OPEN)"

definition sendMessage :: "home \<Rightarrow> home" where
  "sendMessage s =
     (case socketRef s of
        None \<Rightarrow> emit [Alert ''WebSocket not connected!''] s
      | Some ws \<Rightarrow>
          if ready_of s ws \<noteq> Some OPEN then emit [Alert ''WebSocket not connected!''] s
          else
            (let text = trim (input s) in
             if text = [] then s
             else
               (let s1 = (emit [ConsoleLog ''Sending user message:''] s)
                           \<lparr>messages := messages s @ [\<lparr>msg_id = None, sender = User, content = text\<rparr>]\<rparr>
                in case ws_send ws text s1 of
                     None \<Rightarrow> s1
                   | Some s2 \<Rightarrow> s2\<lparr>input := []\<rparr>)))"

definition handleKeyDown :: "jsstring \<Rightarrow> home \<Rightarrow> home" where
  "handleKeyDown key s = (if key = js ''Enter'' then sendMessage s else s)"

subsection \<open>Events and steps\<close>

text \<open>
  After a callback has run, React renders again and runs the effects whose
  dependencies changed: the cleanup first, then the effect bodies in the order of the
  source. The base URL never changes, so only a change of \<open>conversationId\<close> does
  that. A component that is not mounted renders nothing and runs no effect.
\<close>

definition commit :: "home \<Rightarrow> home" where
  "commit s =
     (if phase s = Mounted \<and> conversationId s \<noteq> deps s then
        (ws_effect (conversationId s) (history_effect (conversationId s) (ws_cleanup s)))
          \<lparr>deps := conversationId s\<rparr>
      else s)"

text \<open>
  The first commit runs all three effects with the values of the first render: the
  history and WebSocket effects see the initial \<open>conversationId\<close>, not the one the
  identity effect has just set. The page is mounted once in a session.
\<close>

definition mount :: "home \<Rightarrow> home" where
  "mount s =
     (let cid = conversationId s;
          s1 = identity_effect (s\<lparr>phase := Mounted\<rparr>);
          s2 = history_effect cid s1;
          s3 = ws_effect cid s2
      in s3\<lparr>deps := cid\<rparr>)"

definition unmount :: "home \<Rightarrow> home" where
  "unmount s = (ws_cleanup s)\<lparr>phase := Dismissed\<rparr>"

definition set_ready :: "nat \<Rightarrow> ready_state \<Rightarrow> home \<Rightarrow> home" where
  "set_ready i r s = s\<lparr>sockets := (sockets s)[i := (sockets s ! i)\<lparr>readyState := r\<rparr>]\<rparr>"

text \<open>
  The events of a session. A resolved creation request carries the
  \<^verbatim>\<open>conversation_id\<close> of the response body, an integer by the remote contract; a resolved history
  request carries the list of records; a rejected one stands for any failure of the
  \<^verbatim>\<open>fetch\<close> chain, transport or decoding. Socket events name their socket; an
  inbound frame carries its text.
\<close>

datatype event =
    Mount
  | Unmount
  | CreateResolved int
  | CreateRejected
  | HistoryResolved "server_message list"
  | HistoryRejected
  | WsOpen nat
  | WsMessage nat jsstring
  | WsClose nat
  | WsFail nat
  | ChangeInput jsstring
  | ClickSend
  | KeyDown jsstring

fun handle :: "event \<Rightarrow> home \<Rightarrow> home" where
  "handle Mount s = mount s"
| "handle Unmount s = unmount s"
| "handle (CreateResolved n) s = create_then n (s\<lparr>pendingCreate := pendingCreate s - 1\<rparr>)"
| "handle CreateRejected s = create_catch (s\<lparr>pendingCreate := pendingCreate s - 1\<rparr>)"
| "handle (HistoryResolved msgs) s = history_then msgs (s\<lparr>pendingHistory := pendingHistory s - 1\<rparr>)"
| "handle HistoryRejected s = history_catch (s\<lparr>pendingHistory := pendingHistory s - 1\<rparr>)"
| "handle (WsOpen i) s = ws_onopen (set_ready i OPEN s)"
| "handle (WsMessage i data) s = ws_onmessage data s"
| "handle (WsClose i) s = ws_onclose (set_ready i CLOSED s)"
| "handle (WsFail i) s = ws_onclose (ws_onerror (set_ready i CLOSED s))"
| "handle (ChangeInput v) s = s\<lparr>input := v\<rparr>"
| "handle ClickSend s = sendMessage s"
| "handle (KeyDown key) s = handleKeyDown key s"

definition step :: "event \<Rightarrow> home \<Rightarrow> home" where
  "step e s = commit (handle e s)"

text \<open>
  What the browser can deliver: a response only to a request in flight, \<^verbatim>\<open>open\<close> only
  to a connecting socket, a frame only to an open one, \<^verbatim>\<open>close\<close> and \<^verbatim>\<open>error\<close> only
  to a socket not yet closed, user input only to a mounted view.
\<close>

fun enabled :: "event \<Rightarrow> home \<Rightarrow> bool" where
  "enabled Mount s = (phase s = Fresh)"
| "enabled Unmount s = (phase s = Mounted)"
| "enabled (CreateResolved n) s = (0 < pendingCreate s)"
| "enabled CreateRejected s = (0 < pendingCreate s)"
| "enabled (HistoryResolved msgs) s = (0 < pendingHistory s)"
| "enabled HistoryRejected s = (0 < pendingHistory s)"
| "enabled (WsOpen i) s = (ready_of s i = Some CONNECTING)"
| "enabled (WsMessage i data) s = (ready_of s i = Some OPEN)"
| "enabled (WsClose i) s = (ready_of s i \<noteq> None \<and> ready_of s i \<noteq> Some CLOSED)"
| "enabled (WsFail i) s = (ready_of s i \<noteq> None \<and> ready_of s i \<noteq> Some CLOSED)"
| "enabled (ChangeInput v) s = (phase s = Mounted)"
| "enabled ClickSend s = (phase s = Mounted)"
| "enabled (KeyDown key) s = (phase s = Mounted)"

fun run :: "event list \<Rightarrow> home \<Rightarrow> home option" where
  "run [] s = Some s"
| "run (e # es) s = (if enabled e s then run es (step e s) else None)"

text \<open>Dispatching the text \<open>t\<close>: it is typed into the input field, then Send is clicked.\<close>

definition dispatch :: "jsstring \<Rightarrow> home \<Rightarrow> home" where
  "dispatch t s = step ClickSend (step (ChangeInput t) s)"

subsection \<open>Invariants and example states\<close>

text \<open>
  Between two events the effects are up to date: a mounted component has run its
  effects with the current \<open>conversationId\<close>.
\<close>

definition stable :: "home \<Rightarrow> bool" where
  "stable s = (phase s \<noteq> Mounted \<or> deps s = conversationId s)"

text \<open>
  A session with nothing cached: the page mounts, the creation request returns the
  identifier 1, the socket opens.
\<close>

definition open_state :: home where
  "open_state = step (WsOpen 0) (step (CreateResolved 1) (step Mount (init None Map.empty)))"

text \<open>The same session before the socket has opened.\<close>

definition connecting_state :: home where
  "connecting_state = step (CreateResolved 1) (step Mount (init None Map.empty))"

text \<open>The HTTP requests in a trace.\<close>

fun is_fetch :: "effect \<Rightarrow> bool" where
  "is_fetch (Fetch m u) = True"
| "is_fetch _ = False"

text \<open>
  At most one request is in flight. Before the mount nothing has happened; while the
  creation request is in flight there is no identifier, so the history and WebSocket
  effects have not run.
\<close>

definition pending_ok :: "home \<Rightarrow> bool" where
  "pending_ok s =
     (stable s \<and> pendingCreate s + pendingHistory s \<le> 1 \<and>
      (if phase s = Fresh
       then pendingCreate s = 0 \<and> pendingHistory s = 0 \<and> conversationId s = None \<and>
            deps s = None \<and> cleanup s = None
       else True) \<and>
      (if 0 < pendingCreate s
       then conversationId s = None \<and> deps s = None \<and> cleanup s = None
       else True))"

text \<open>No request is in flight and none will be issued again.\<close>

definition quiet :: "home \<Rightarrow> bool" where
  "quiet s = (stable s \<and> pendingCreate s = 0 \<and> pendingHistory s = 0 \<and> phase s \<noteq> Fresh)"

text \<open>
  No frame handed to a socket is empty, and no message of the log that was echoed
  locally (sender \<open>User\<close>, no id) has empty content.
\<close>

definition outbound_nonempty :: "home \<Rightarrow> bool" where
  "outbound_nonempty s =
     ([] \<notin> set (concat (map sent (sockets s))) \<and>
      (\<forall>m \<in> set (messages s). msg_id m = None \<and> sender m = User \<longrightarrow> content m \<noteq> []))"

text \<open>The example session after its history has loaded, and after an exchange.\<close>

definition history_state :: home where
  "history_state =
     step (HistoryResolved [\<lparr>m_id = 1, m_sender = js ''user'', m_content = js ''hi''\<rparr>]) open_state"

definition chat_state :: home where
  "chat_state = step (WsMessage 0 (js ''yo'')) (dispatch (js ''  hello  '') history_state)"

text \<open>The frames among the events of a session, in the order of their arrival.\<close>

fun inbound :: "event list \<Rightarrow> jsstring list" where
  "inbound [] = []"
| "inbound (WsMessage i d # es) = d # inbound es"
| "inbound (e # es) = inbound es"

text \<open>A history request that succeeds.\<close>

fun is_history :: "event \<Rightarrow> bool" where
  "is_history (HistoryResolved msgs) = True"
| "is_history e = False"

text \<open>The messages of a log that came from the service.\<close>

definition bot_messages :: "message list \<Rightarrow> message list" where
  "bot_messages ms = filter (\<lambda>m. sender m = Bot) ms"

text \<open>
  The open session takes a frame, the user sends a text, the history request fails,
  another frame comes.
\<close>

definition interleaved_state :: home where
  "interleaved_state =
     step (WsMessage 0 (js ''b'')) (step HistoryRejected (step ClickSend
       (step (ChangeInput (js ''hi'')) (step (WsMessage 0 (js ''a'')) open_state))))"

text \<open>The creation requests in a trace.\<close>

fun is_create :: "effect \<Rightarrow> bool" where
  "is_create (Fetch POST u) = True"
| "is_create _ = False"

text \<open>
  Before the mount nothing has been done and the storage is as the session found it;
  from the mount on, the trace holds one creation request if the storage held no
  identifier, and none if it held one.
\<close>

definition creation_ok :: "jsstring option \<Rightarrow> (jsstring \<rightharpoonup> jsstring) \<Rightarrow> home \<Rightarrow> bool" where
  "creation_ok env store s =
     (apiUrl s = env \<and>
      (if phase s = Fresh then trace s = [] \<and> localStorage s = store \<and> sockets s = []
       else filter is_create (trace s) =
              (if truthy (store storageKey) then []
               else [Fetch POST (baseUrl s @ js ''/conversations/new'')])))"

text \<open>A session that finds a cached value that is not a number.\<close>

definition nan_state :: home where
  "nan_state = step Mount (init None (Map.empty(storageKey \<mapsto> js ''abc'')))"

text \<open>
  A connection is live while it is connecting or open, that is until \<^verbatim>\<open>close()\<close> is
  called on it or the browser reports it closed. \<open>live_ids\<close> lists the live sockets.
\<close>

definition live :: "websocket \<Rightarrow> bool" where
  "live w = (readyState w = CONNECTING \<or> readyState w = OPEN)"

definition live_ids :: "home \<Rightarrow> nat list" where
  "live_ids s = filter (\<lambda>i. live (sockets s ! i)) [0..<length (sockets s)]"

text \<open>
  The invariant of the WebSocket effect: no socket is live, or the page is mounted and
  the one live socket is the one its cleanup function will close; and before the mount
  there is no identifier and no request.
\<close>

definition connection_ok :: "home \<Rightarrow> bool" where
  "connection_ok s =
     (stable s \<and>
      (live_ids s = [] \<or> (phase s = Mounted \<and> map Some (live_ids s) = [cleanup s])) \<and>
      (phase s \<noteq> Fresh \<or> (conversationId s = None \<and> pendingCreate s = 0)))"

text \<open>
  The socket the pending cleanup function will close, and the statement that no other
  socket is live.
\<close>

definition owner :: "home \<Rightarrow> nat option" where
  "owner s = (if phase s = Mounted then cleanup s else None)"

definition no_live_but :: "nat option \<Rightarrow> websocket list \<Rightarrow> bool" where
  "no_live_but k xs = (\<forall>i < length xs. live (xs ! i) \<longrightarrow> k = Some i)"

text \<open>
  The example session with a second creation response pending, so that the identifier
  can change while a connection is open.
\<close>

definition rebind_state :: home where
  "rebind_state = open_state\<lparr>pendingCreate := 1\<rparr>"

section \<open>Properties\<close>

subsection \<open>Numbers and their strings\<close>

lemma round53_safe: "m < 2 ^ 53 \<Longrightarrow> round53 m = m"
  by (simp add: round53_def)

lemma to_double_safe: "\<bar>n\<bar> < 2 ^ 53 \<Longrightarrow> to_double n = JInt n"
proof -
  assume a: "\<bar>n\<bar> < 2 ^ 53"
  then have m: "nat \<bar>n\<bar> < 2 ^ 53"
    by (simp add: nat_less_iff)
  have "(2::nat) ^ 53 < 2 ^ 1024" by simp
  with m have "\<not> 2 ^ 1024 \<le> nat \<bar>n\<bar>" by linarith
  with m show ?thesis by (simp add: to_double_def round53_safe Let_def)
qed

lemma String_js_safe:
  "\<bar>n\<bar> < 2 ^ 53 \<Longrightarrow>
   String_js (JInt n) = (if n < 0 then js ''-'' @ digits (nat (- n)) else digits (nat n))"
  by (auto simp: decimal_def nat_less_iff)

lemma unat_digitChar: "d < 10 \<Longrightarrow> unat (digitChar d) = 48 + d"
  unfolding digitChar_def by (simp only: unat_of_nat) simp

lemma digitChar_isDigit: "d < 10 \<Longrightarrow> isDigit (digitChar d)"
  by (simp add: isDigit_def word_le_nat_alt unat_digitChar)

lemma digitChar_val: "d < 10 \<Longrightarrow> digitVal (digitChar d) = int d"
  by (simp add: digitVal_def uint_nat unat_digitChar)

lemma isDigit_plain: "isDigit c \<Longrightarrow> \<not> isWhiteSpace c \<and> c \<noteq> 0x2B \<and> c \<noteq> 0x2D"
  by (auto simp: isDigit_def isWhiteSpace_def word_le_nat_alt)

lemma digits_ne: "digits m \<noteq> []"
  by (subst digits.simps) simp

lemma digits_isDigit: "c \<in> set (digits m) \<Longrightarrow> isDigit c"
proof (induction m arbitrary: c rule: digits.induct)
  case (1 n)
  show ?case
  proof (cases "n < 10")
    case True
    with "1.prems" show ?thesis by (simp add: digits.simps [of n] digitChar_isDigit)
  next
    case False
    with "1.prems" "1.IH" show ?thesis
      by (auto simp: digits.simps [of n] digitChar_isDigit)
  qed
qed

lemma foldl_digits: "foldl (\<lambda>a c. 10 * a + digitVal c) 0 (digits m) = int m"
proof (induction m rule: digits.induct)
  case (1 n)
  show ?case
  proof (cases "n < 10")
    case True
    then show ?thesis by (simp add: digits.simps [of n] digitChar_val)
  next
    case False
    have "int n = 10 * int (n div 10) + int (n mod 10)"
      by (simp add: zdiv_int zmod_int)
    with False "1.IH" show ?thesis
      by (simp add: digits.simps [of n] digitChar_val)
  qed
qed

lemma takeWhile_digits: "takeWhile isDigit r = [] \<Longrightarrow> takeWhile isDigit (digits m @ r) = digits m"
  by (simp add: takeWhile_append2 digits_isDigit)

lemma dropWhile_ws: "\<forall>x \<in> set w. isWhiteSpace x \<Longrightarrow> \<not> isWhiteSpace c \<Longrightarrow>
   dropWhile isWhiteSpace (w @ c # r) = c # r"
  by (simp add: dropWhile_append2)

lemma to_double_zero: "to_double 0 = JInt 0"
  by (simp add: to_double_safe)

lemma parseInt_blank:
  assumes "\<forall>x \<in> set s. isWhiteSpace x"
  shows "parseInt s = JNaN"
proof -
  from assms have h: "dropWhile isWhiteSpace s = []" by simp
  show ?thesis by (simp only: parseInt_def h Let_def list.case takeWhile.simps) simp
qed

lemma parseInt_minus:
  assumes "\<forall>x \<in> set w. isWhiteSpace x"
  shows "parseInt (w @ 0x2D # t) =
     (if takeWhile isDigit t = [] then JNaN
      else if foldl (\<lambda>a c. 10 * a + digitVal c) 0 (takeWhile isDigit t) = 0 then JNegZero
      else to_double (- foldl (\<lambda>a c. 10 * a + digitVal c) 0 (takeWhile isDigit t)))"
proof -
  have "\<not> isWhiteSpace 0x2D" by (simp add: isWhiteSpace_def)
  with assms have "dropWhile isWhiteSpace (w @ 0x2D # t) = 0x2D # t" by (rule dropWhile_ws)
  then show ?thesis by (simp add: parseInt_def Let_def)
qed

lemma parseInt_plus:
  assumes "\<forall>x \<in> set w. isWhiteSpace x"
  shows "parseInt (w @ 0x2B # t) =
     (if takeWhile isDigit t = [] then JNaN
      else to_double (foldl (\<lambda>a c. 10 * a + digitVal c) 0 (takeWhile isDigit t)))"
proof -
  have "\<not> isWhiteSpace 0x2B" by (simp add: isWhiteSpace_def)
  with assms have "dropWhile isWhiteSpace (w @ 0x2B # t) = 0x2B # t" by (rule dropWhile_ws)
  then show ?thesis by (simp add: parseInt_def Let_def to_double_zero)
qed

lemma parseInt_plain:
  assumes "\<forall>x \<in> set w. isWhiteSpace x" and "\<not> isWhiteSpace c" and "c \<noteq> 0x2B" and "c \<noteq> 0x2D"
  shows "parseInt (w @ c # t) =
     (if takeWhile isDigit (c # t) = [] then JNaN
      else to_double (foldl (\<lambda>a c. 10 * a + digitVal c) 0 (takeWhile isDigit (c # t))))"
proof -
  from assms(1,2) have "dropWhile isWhiteSpace (w @ c # t) = c # t" by (rule dropWhile_ws)
  then show ?thesis using assms(3,4)
    by (simp add: parseInt_def Let_def to_double_zero del: takeWhile.simps)
qed

lemma parseInt_digits:
  assumes w: "\<forall>x \<in> set w. isWhiteSpace x" and r: "takeWhile isDigit r = []"
  shows "parseInt (w @ digits m @ r) = to_double (int m)"
proof -
  obtain c ds where d: "digits m = c # ds" using digits_ne [of m] by (cases "digits m") auto
  then have "isDigit c" using digits_isDigit [of c m] by simp
  then have p: "\<not> isWhiteSpace c" "c \<noteq> 0x2B" "c \<noteq> 0x2D" using isDigit_plain by blast+
  have Z: "takeWhile isDigit (c # ds @ r) = digits m"
    using takeWhile_digits [OF r, of m] by (simp only: d append_Cons)
  have "parseInt (w @ c # ds @ r) = to_double (int m)"
    by (simp only: parseInt_plain [OF w p] Z foldl_digits digits_ne if_False)
  then show ?thesis by (simp only: d append_Cons)
qed

lemma parseInt_minus_digits:
  assumes w: "\<forall>x \<in> set w. isWhiteSpace x" and r: "takeWhile isDigit r = []"
  shows "parseInt (w @ 0x2D # digits m @ r) = (if m = 0 then JNegZero else to_double (- int m))"
  by (simp add: parseInt_minus [OF w] takeWhile_digits [OF r] foldl_digits digits_ne)

lemma parseInt_plus_digits:
  assumes w: "\<forall>x \<in> set w. isWhiteSpace x" and r: "takeWhile isDigit r = []"
  shows "parseInt (w @ 0x2B # digits m @ r) = to_double (int m)"
  by (simp add: parseInt_plus [OF w] takeWhile_digits [OF r] foldl_digits digits_ne)

lemma parseInt_String_js:
  assumes "\<bar>n\<bar> < 2 ^ 53"
  shows "parseInt (String_js (JInt n)) = JInt n"
proof (cases "n < 0")
  case True
  have "parseInt ([] @ 0x2D # digits (nat (- n)) @ []) =
      (if nat (- n) = 0 then JNegZero else to_double (- int (nat (- n))))"
    by (rule parseInt_minus_digits) simp_all
  then show ?thesis using True assms
    by (simp add: String_js_safe js_def to_double_safe del: String_js.simps)
next
  case False
  have "parseInt ([] @ digits (nat n) @ []) = to_double (int (nat n))"
    by (rule parseInt_digits) simp_all
  then show ?thesis using False assms
    by (simp add: String_js_safe to_double_safe del: String_js.simps)
qed

lemma foldl_zeros: "foldl (\<lambda>a c. 10 * a + digitVal c) 0 (replicate k (digitChar 0)) = 0"
  by (induction k) (simp_all add: digitChar_val)

lemma foldl_zeros_digits:
  "foldl (\<lambda>a c. 10 * a + digitVal c) 0 (replicate k (digitChar 0) @ digits m) = int m"
  by (simp add: foldl_zeros foldl_digits)

lemma takeWhile_zeros_digits:
  "takeWhile isDigit r = [] \<Longrightarrow>
   takeWhile isDigit (replicate k (digitChar 0) @ digits m @ r) = replicate k (digitChar 0) @ digits m"
proof -
  assume r: "takeWhile isDigit r = []"
  have "\<And>x. x \<in> set (replicate k (digitChar 0) @ digits m) \<Longrightarrow> isDigit x"
    by (auto simp: digits_isDigit digitChar_isDigit)
  then have "takeWhile isDigit ((replicate k (digitChar 0) @ digits m) @ r) =
      (replicate k (digitChar 0) @ digits m) @ takeWhile isDigit r"
    by (rule takeWhile_append2)
  then show ?thesis by (simp only: r append_Nil2 append_assoc)
qed

lemma parseInt_minus_zeros_digits:
  assumes w: "\<forall>x \<in> set w. isWhiteSpace x" and r: "takeWhile isDigit r = []"
  shows "parseInt (w @ 0x2D # replicate k (digitChar 0) @ digits m @ r) =
           (if m = 0 then JNegZero else to_double (- int m))"
  by (simp add: parseInt_minus [OF w] takeWhile_zeros_digits [OF r] foldl_zeros foldl_digits
      digits_ne)

lemma parseInt_plus_zeros_digits:
  assumes w: "\<forall>x \<in> set w. isWhiteSpace x" and r: "takeWhile isDigit r = []"
  shows "parseInt (w @ 0x2B # replicate k (digitChar 0) @ digits m @ r) = to_double (int m)"
  by (simp add: parseInt_plus [OF w] takeWhile_zeros_digits [OF r] foldl_zeros foldl_digits
      digits_ne)

lemma parseInt_zeros_digits:
  assumes w: "\<forall>x \<in> set w. isWhiteSpace x" and r: "takeWhile isDigit r = []"
  shows "parseInt (w @ replicate k (digitChar 0) @ digits m @ r) = to_double (int m)"
proof -
  let ?Z = "replicate k (digitChar 0) @ digits m"
  obtain c ds where d: "?Z = c # ds" using digits_ne [of m] by (cases ?Z) auto
  then have "c \<in> set ?Z" by simp
  then have "isDigit c" by (auto simp: digits_isDigit digitChar_isDigit)
  then have p: "\<not> isWhiteSpace c" "c \<noteq> 0x2B" "c \<noteq> 0x2D" using isDigit_plain by blast+
  have "takeWhile isDigit (?Z @ r) = ?Z"
    using takeWhile_zeros_digits [OF r, of k m] by simp
  then have Z: "takeWhile isDigit (c # ds @ r) = ?Z" by (simp only: d append_Cons)
  have ne: "?Z \<noteq> []" by (simp add: digits_ne)
  have "parseInt (w @ c # ds @ r) = to_double (int m)"
    by (simp only: parseInt_plain [OF w p] Z foldl_zeros_digits ne if_False)
  then have "parseInt (w @ ?Z @ r) = to_double (int m)" by (simp only: d append_Cons)
  then show ?thesis by simp
qed

lemma parseInt_sign_NaN:
  assumes w: "\<forall>x \<in> set w. isWhiteSpace x" and r: "takeWhile isDigit r = []"
  shows "parseInt (w @ 0x2B # r) = JNaN" and "parseInt (w @ 0x2D # r) = JNaN"
  by (simp_all add: parseInt_plus [OF w] parseInt_minus [OF w] r)

lemma parseInt_plain_NaN:
  assumes w: "\<forall>x \<in> set w. isWhiteSpace x" and r: "takeWhile isDigit r = []"
    and p: "takeWhile (\<lambda>c. isWhiteSpace c \<or> c = 0x2B \<or> c = 0x2D) r = []"
  shows "parseInt (w @ r) = JNaN"
proof (cases r)
  case Nil
  then show ?thesis using w by (simp add: parseInt_blank)
next
  case (Cons c t)
  with p have c: "\<not> isWhiteSpace c" "c \<noteq> 0x2B" "c \<noteq> 0x2D" by (auto split: if_splits)
  from r Cons have tk: "takeWhile isDigit (c # t) = []" by simp
  have "parseInt (w @ c # t) = JNaN"
    by (simp only: parseInt_plain [OF w c] tk) simp
  then show ?thesis by (simp only: Cons)
qed

lemmas handler_defs =
  emit_def identity_effect_def create_then_def create_catch_def history_effect_def
  history_then_def history_catch_def ws_close_def ws_effect_def ws_cleanup_def
  ws_onopen_def ws_onmessage_def ws_onclose_def ws_onerror_def ws_send_def
  sendMessage_def handleKeyDown_def mount_def unmount_def set_ready_def

lemmas string_defs =
  js_def isWhiteSpace_def isDigit_def digitVal_def trim_def parseInt_def
  replace_http_ws_def storageKey_def

lemmas eval_defs =
  step_def init_def handler_defs commit_def baseUrl_def Let_def ready_of_def
  not_connected_def dispatch_def botMsg_def load_message_def

subsection \<open>Runs\<close>

lemma commit_stable: "stable s \<Longrightarrow> commit s = s"
  by (auto simp: stable_def commit_def)

lemma stable_commit: "stable (commit s)"
  by (simp add: stable_def commit_def handler_defs Let_def split: option.splits)

lemma stable_step: "stable (step e s)"
  by (simp add: step_def stable_commit)

lemma stable_init: "stable (init env store)"
  by (simp add: stable_def init_def)

lemma run_invariant:
  assumes "run es s0 = Some s" and "P s0"
    and "\<And>e s. P s \<Longrightarrow> enabled e s \<Longrightarrow> P (step e s)"
  shows "P s"
  using assms(1,2)
proof (induction es arbitrary: s0)
  case Nil
  then show ?case by simp
next
  case (Cons e es)
  then show ?case using assms(3) by (auto split: if_splits)
qed

lemma run_stable: "run es (init env store) = Some s \<Longrightarrow> stable s"
  by (erule run_invariant) (simp_all add: stable_init stable_step)

lemma run_open_state:
  "run [Mount, CreateResolved 1, WsOpen 0] (init None Map.empty) = Some open_state"
  by (simp add: open_state_def eval_defs)

lemma ready_open_state: "ready_of open_state 0 = Some OPEN"
  by (simp add: open_state_def eval_defs)

subsection \<open>Inbound frames\<close>

lemma step_WsMessage:
  "stable s \<Longrightarrow> step (WsMessage i d) s =
     s\<lparr>messages := messages s @ [botMsg d], trace := trace s @ [ConsoleLog ''WS received:'']\<rparr>"
  by (auto simp: step_def handler_defs commit_def stable_def)

lemma frames_run:
  "stable s \<Longrightarrow> ready_of s i = Some OPEN \<Longrightarrow>
   map_option messages (run (map (WsMessage i) fs) s) = Some (messages s @ map botMsg fs)"
proof (induction fs arbitrary: s)
  case Nil
  then show ?case by simp
next
  case (Cons f fs)
  let ?s1 = "step (WsMessage i f) s"
  have eq: "?s1 = s\<lparr>messages := messages s @ [botMsg f],
       trace := trace s @ [ConsoleLog ''WS received:'']\<rparr>"
    using Cons.prems(1) by (rule step_WsMessage)
  have "stable ?s1" by (rule stable_step)
  moreover have "ready_of ?s1 i = Some OPEN"
    using Cons.prems(2) by (auto simp: eq ready_of_def split: if_splits)
  ultimately have "map_option messages (run (map (WsMessage i) fs) ?s1) =
      Some (messages ?s1 @ map botMsg fs)"
    by (rule Cons.IH)
  then show ?case using Cons.prems(2) by (simp add: eq)
qed

subsection \<open>The dispatcher\<close>

lemma step_ChangeInput: "stable s \<Longrightarrow> step (ChangeInput t) s = s\<lparr>input := t\<rparr>"
  by (auto simp: step_def commit_def stable_def)

lemma sendMessage_frame:
  "phase (sendMessage s) = phase s \<and> deps (sendMessage s) = deps s \<and>
   conversationId (sendMessage s) = conversationId s"
  by (simp add: handler_defs Let_def split: option.splits ready_state.splits)

lemma step_ClickSend: "stable s \<Longrightarrow> step ClickSend s = sendMessage s"
  by (auto simp: step_def commit_def stable_def sendMessage_frame)

lemma step_KeyDown: "stable s \<Longrightarrow> step (KeyDown k) s = handleKeyDown k s"
  by (auto simp: step_def commit_def stable_def sendMessage_frame handleKeyDown_def)

lemma dispatch_sendMessage: "stable s \<Longrightarrow> dispatch t s = sendMessage (s\<lparr>input := t\<rparr>)"
  by (simp add: dispatch_def step_ChangeInput step_ClickSend stable_def)

lemma sendMessage_not_connected:
  "not_connected s \<Longrightarrow> sendMessage s = s\<lparr>trace := trace s @ [Alert ''WebSocket not connected!'']\<rparr>"
  by (simp add: not_connected_def sendMessage_def emit_def split: option.splits)

lemma not_connected_input: "not_connected (s\<lparr>input := t\<rparr>) = not_connected s"
  by (simp add: not_connected_def ready_of_def split: option.splits)

text \<open>
  C4. In any state a session can reach in which the connection is not open (no socket
  yet, or the socket of \<open>socketRef\<close> not in state \<open>OPEN\<close>), dispatching any text
  \<open>t\<close>, by the button or by the Enter key, appends nothing to the message log, hands
  nothing to any socket and changes no state cell: the text stays in the input field,
  and the only effect is the alert that tells the user the socket is not connected.
\<close>

theorem C4_dispatch_not_open:
  assumes "run es (init env store) = Some s" and "not_connected s"
  shows "dispatch t s = s\<lparr>input := t, trace := trace s @ [Alert ''WebSocket not connected!'']\<rparr>
       \<and> step (KeyDown (js ''Enter'')) s = s\<lparr>trace := trace s @ [Alert ''WebSocket not connected!'']\<rparr>
       \<and> messages (dispatch t s) = messages s
       \<and> sockets (dispatch t s) = sockets s"
proof -
  have st: "stable s" using assms(1) by (rule run_stable)
  have "dispatch t s = sendMessage (s\<lparr>input := t\<rparr>)"
    using st by (rule dispatch_sendMessage)
  also have "\<dots> = (s\<lparr>input := t\<rparr>)\<lparr>trace := trace (s\<lparr>input := t\<rparr>) @ [Alert ''WebSocket not connected!'']\<rparr>"
    using assms(2) by (intro sendMessage_not_connected) (simp add: not_connected_input)
  finally have d: "dispatch t s = s\<lparr>input := t, trace := trace s @ [Alert ''WebSocket not connected!'']\<rparr>"
    by simp
  have k: "step (KeyDown (js ''Enter'')) s = s\<lparr>trace := trace s @ [Alert ''WebSocket not connected!'']\<rparr>"
    using st assms(2) by (simp add: step_KeyDown handleKeyDown_def sendMessage_not_connected)
  show ?thesis by (simp add: d k)
qed

lemma run_connecting_state:
  "run [Mount, CreateResolved 1] (init None Map.empty) = Some connecting_state"
  by (simp add: connecting_state_def eval_defs)

lemma not_connected_connecting_state: "not_connected connecting_state"
  by (simp add: connecting_state_def eval_defs)

theorem C4_witness:
  "run [Mount, CreateResolved 1] (init None Map.empty) = Some connecting_state
   \<and> not_connected connecting_state
   \<and> messages (dispatch (js ''hello'') connecting_state) = []
   \<and> map sent (sockets (dispatch (js ''hello'') connecting_state)) = [[]]
   \<and> trace (dispatch (js ''hello'') connecting_state) =
       trace connecting_state @ [Alert ''WebSocket not connected!'']"
  using C4_dispatch_not_open [OF run_connecting_state not_connected_connecting_state, of "js ''hello''"]
  by (simp add: run_connecting_state not_connected_connecting_state)
     (simp add: connecting_state_def eval_defs)

subsection \<open>History load\<close>



subsection \<open>Requests in flight\<close>

lemma pending_ok_init: "pending_ok (init env store)"
  by (simp add: pending_ok_def stable_def init_def)

lemma commit_fields:
  "phase (commit s) = phase s"
  "conversationId (commit s) = conversationId s"
  "pendingCreate (commit s) = pendingCreate s"
  "messages (commit s) = messages s"
  "input (commit s) = input s"
  "localStorage (commit s) = localStorage s"
  "apiUrl (commit s) = apiUrl s"
  "deps (commit s) = (if phase s = Mounted then conversationId s else deps s)"
  "pendingHistory (commit s) =
     (if phase s = Mounted \<and> conversationId s \<noteq> deps s \<and> conversationId s \<noteq> None
      then pendingHistory s + 1 else pendingHistory s)"
  "cleanup (commit s) =
     (if phase s = Mounted \<and> conversationId s \<noteq> deps s
      then (case conversationId s of None \<Rightarrow> None | Some c \<Rightarrow> Some (length (sockets s)))
      else cleanup s)"
  by (auto simp: commit_def handler_defs Let_def split: option.splits)

lemma mount_fields:
  "phase (mount s) = Mounted"
  "conversationId (mount s) =
     (case localStorage s storageKey of
        None \<Rightarrow> conversationId s
      | Some v \<Rightarrow> if v = [] then conversationId s else Some (parseInt v))"
  "pendingCreate (mount s) =
     (if truthy (localStorage s storageKey) then pendingCreate s else pendingCreate s + 1)"
  "deps (mount s) = conversationId s"
  "conversationId s = None \<Longrightarrow> pendingHistory (mount s) = pendingHistory s"
  "conversationId s = None \<Longrightarrow> cleanup (mount s) = None"
  "messages (mount s) = messages s"
  by (auto simp: handler_defs Let_def split: option.splits)

lemma create_then_fields:
  "phase (create_then n s) = phase s"
  "conversationId (create_then n s) = Some (to_double n)"
  "pendingCreate (create_then n s) = pendingCreate s"
  "pendingHistory (create_then n s) = pendingHistory s"
  "deps (create_then n s) = deps s"
  "cleanup (create_then n s) = cleanup s"
  "messages (create_then n s) = messages s"
  by (simp_all add: handler_defs Let_def)

lemma handle_frame:
  "e \<noteq> Mount \<Longrightarrow> e \<noteq> Unmount \<Longrightarrow> (\<forall>n. e \<noteq> CreateResolved n) \<Longrightarrow>
   phase (handle e s) = phase s \<and> deps (handle e s) = deps s \<and>
   conversationId (handle e s) = conversationId s"
  by (cases e) (simp_all add: handler_defs Let_def split: option.splits ready_state.splits)

lemma handle_pending:
  "e \<noteq> Mount \<Longrightarrow> e \<noteq> Unmount \<Longrightarrow> (\<forall>n. e \<noteq> CreateResolved n) \<Longrightarrow> e \<noteq> CreateRejected \<Longrightarrow>
   (\<forall>m. e \<noteq> HistoryResolved m) \<Longrightarrow> e \<noteq> HistoryRejected \<Longrightarrow>
   pendingCreate (handle e s) = pendingCreate s \<and> pendingHistory (handle e s) = pendingHistory s
   \<and> cleanup (handle e s) = cleanup s"
  by (cases e) (simp_all add: handler_defs Let_def split: option.splits ready_state.splits)

lemma step_handle:
  "stable s \<Longrightarrow> e \<noteq> Mount \<Longrightarrow> e \<noteq> Unmount \<Longrightarrow> (\<forall>n. e \<noteq> CreateResolved n) \<Longrightarrow>
   step e s = handle e s"
  unfolding step_def by (rule commit_stable) (simp add: stable_def handle_frame)

lemma step_Unmount_fields:
  "phase (step Unmount s) = Dismissed \<and> pendingCreate (step Unmount s) = pendingCreate s \<and>
   pendingHistory (step Unmount s) = pendingHistory s \<and>
   conversationId (step Unmount s) = conversationId s \<and> deps (step Unmount s) = deps s \<and>
   cleanup (step Unmount s) = None \<and> messages (step Unmount s) = messages s"
  by (simp add: step_def commit_def handler_defs split: option.splits)

lemma pending_ok_step:
  assumes "pending_ok s" and "enabled e s"
  shows "pending_ok (step e s)"
proof (cases e)
  case Mount
  with assms have f: "phase s = Fresh" "pendingCreate s = 0" "pendingHistory s = 0"
    "conversationId s = None" "deps s = None" "cleanup s = None"
    by (simp_all add: pending_ok_def)
  show ?thesis unfolding Mount
    by (simp add: pending_ok_def stable_def step_def commit_fields mount_fields f
        split: option.splits)
next
  case Unmount
  then show ?thesis using assms
    by (simp add: pending_ok_def stable_def step_Unmount_fields split: if_splits)
next
  case (CreateResolved n)
  with assms have f: "pendingCreate s = 1" "pendingHistory s = 0"
    "conversationId s = None" "deps s = None" "cleanup s = None" "phase s \<noteq> Fresh"
    by (auto simp: pending_ok_def split: if_splits)
  show ?thesis unfolding CreateResolved
    by (simp add: pending_ok_def stable_def step_def commit_fields create_then_fields f)
next
  case CreateRejected
  then show ?thesis using assms
    by (simp add: pending_ok_def stable_def step_handle handle_frame del: handle.simps)
       (auto simp: handler_defs split: if_splits)
next
  case (HistoryResolved msgs)
  then show ?thesis using assms
    by (simp add: pending_ok_def stable_def step_handle handle_frame del: handle.simps)
       (auto simp: handler_defs split: if_splits)
next
  case HistoryRejected
  then show ?thesis using assms
    by (simp add: pending_ok_def stable_def step_handle handle_frame del: handle.simps)
       (auto simp: handler_defs split: if_splits)
next
  case (WsOpen i)
  then show ?thesis using assms
    by (simp add: pending_ok_def step_handle handle_pending handle_frame stable_def del: handle.simps)
next
  case (WsMessage i d)
  then show ?thesis using assms
    by (simp add: pending_ok_def step_handle handle_pending handle_frame stable_def del: handle.simps)
next
  case (WsClose i)
  then show ?thesis using assms
    by (simp add: pending_ok_def step_handle handle_pending handle_frame stable_def del: handle.simps)
next
  case (WsFail i)
  then show ?thesis using assms
    by (simp add: pending_ok_def step_handle handle_pending handle_frame stable_def del: handle.simps)
next
  case (ChangeInput v)
  then show ?thesis using assms
    by (simp add: pending_ok_def step_handle handle_pending handle_frame stable_def del: handle.simps)
next
  case ClickSend
  then show ?thesis using assms
    by (simp add: pending_ok_def step_handle handle_pending handle_frame stable_def del: handle.simps)
next
  case (KeyDown k)
  then show ?thesis using assms
    by (simp add: pending_ok_def step_handle handle_pending handle_frame stable_def del: handle.simps)
qed

lemma run_pending_ok: "run es (init env store) = Some s \<Longrightarrow> pending_ok s"
  by (erule run_invariant) (simp_all add: pending_ok_init pending_ok_step)

lemma stable_handle:
  "stable s \<Longrightarrow> e \<noteq> Mount \<Longrightarrow> e \<noteq> Unmount \<Longrightarrow> (\<forall>n. e \<noteq> CreateResolved n) \<Longrightarrow>
   stable (handle e s)"
  by (simp add: stable_def handle_frame del: handle.simps)

lemma quiet_after_history:
  assumes "pending_ok s" and "0 < pendingHistory s"
  shows "quiet (step (HistoryResolved msgs) s)" and "quiet (step HistoryRejected s)"
proof -
  from assms have f: "stable s" "pendingHistory s = 1" "pendingCreate s = 0" "phase s \<noteq> Fresh"
    by (auto simp: pending_ok_def split: if_splits)
  show "quiet (step (HistoryResolved msgs) s)"
    using f by (simp add: quiet_def step_handle stable_handle handle_frame del: handle.simps)
      (simp add: handler_defs)
  show "quiet (step HistoryRejected s)"
    using f by (simp add: quiet_def step_handle stable_handle handle_frame del: handle.simps)
      (simp add: handler_defs)
qed

lemma quiet_events:
  assumes "quiet s" and "enabled e s"
  shows "e \<noteq> Mount \<and> (\<forall>n. e \<noteq> CreateResolved n) \<and> e \<noteq> CreateRejected \<and>
         (\<forall>m. e \<noteq> HistoryResolved m) \<and> e \<noteq> HistoryRejected"
  using assms by (cases e) (simp_all add: quiet_def)

lemma quiet_step:
  assumes "quiet s" and "enabled e s"
  shows "quiet (step e s)"
proof (cases "e = Unmount")
  case True
  then show ?thesis using assms by (simp add: quiet_def stable_step step_Unmount_fields)
next
  case False
  then show ?thesis using assms quiet_events [OF assms]
    by (simp add: quiet_def step_handle stable_handle handle_frame handle_pending del: handle.simps)
qed

lemma trace_handle:
  "e \<noteq> Mount \<Longrightarrow> (\<forall>n. e \<noteq> CreateResolved n) \<Longrightarrow>
   filter is_fetch (trace (handle e s)) = filter is_fetch (trace s)"
  by (cases e) (simp_all add: handler_defs Let_def split: option.splits ready_state.splits)

lemma trace_Unmount:
  "filter is_fetch (trace (step Unmount s)) = filter is_fetch (trace s)"
  by (simp add: step_def commit_def handler_defs split: option.splits)

lemma quiet_no_fetch:
  assumes "quiet s" and "enabled e s"
  shows "filter is_fetch (trace (step e s)) = filter is_fetch (trace s)"
proof (cases "e = Unmount")
  case True
  then show ?thesis by (simp add: trace_Unmount)
next
  case False
  then show ?thesis using assms quiet_events [OF assms]
    by (simp add: quiet_def step_handle trace_handle del: handle.simps)
qed

lemma messages_handle:
  "(\<forall>m. e \<noteq> HistoryResolved m) \<Longrightarrow> prefix (messages s) (messages (handle e s))"
  by (cases e) (simp_all add: handler_defs Let_def split: option.splits ready_state.splits)

lemma messages_step:
  "(\<forall>m. e \<noteq> HistoryResolved m) \<Longrightarrow> prefix (messages s) (messages (step e s))"
  by (simp add: step_def commit_fields messages_handle)

lemma quiet_run:
  "quiet s \<Longrightarrow> run es s = Some s' \<Longrightarrow>
   quiet s' \<and> prefix (messages s) (messages s') \<and>
   filter is_fetch (trace s') = filter is_fetch (trace s)"
proof (induction es arbitrary: s)
  case Nil
  then show ?case by simp
next
  case (Cons e es)
  from Cons.prems have en: "enabled e s" and r: "run es (step e s) = Some s'"
    by (simp_all split: if_splits)
  have q: "quiet (step e s)" using Cons.prems(1) en by (rule quiet_step)
  have p: "prefix (messages s) (messages (step e s))"
    using quiet_events [OF Cons.prems(1) en] by (simp add: messages_step)
  have t: "filter is_fetch (trace (step e s)) = filter is_fetch (trace s)"
    using Cons.prems(1) en by (rule quiet_no_fetch)
  from Cons.IH [OF q r] p t show ?case
    by (auto intro: prefix_order.trans)
qed

subsection \<open>History failure\<close>

text \<open>
  C7. In any state a session can reach with a history request in flight, the failure
  of that request (transport or decoding) leaves the message log and every other state
  cell as they are; its only effect is one \<^verbatim>\<open>console.error\<close> entry. The request is
  not repeated: in every continuation \<open>es'\<close> of the session the requests in the
  trace are those that were there before the failure.
\<close>

theorem C7_history_failure_keeps_log:
  assumes "run es (init env store) = Some s" and "enabled HistoryRejected s"
  shows "step HistoryRejected s =
           s\<lparr>pendingHistory := 0,
             trace := trace s @ [ConsoleError ''Failed to fetch conversation messages:'']\<rparr>
       \<and> messages (step HistoryRejected s) = messages s
       \<and> (run es' (step HistoryRejected s) = Some s' \<longrightarrow>
            filter is_fetch (trace s') = filter is_fetch (trace s))"
proof -
  have p: "pending_ok s" using assms(1) by (rule run_pending_ok)
  then have st: "stable s" by (simp add: pending_ok_def)
  from p assms(2) have one: "pendingHistory s = 1"
    by (auto simp: pending_ok_def split: if_splits)
  have eq: "step HistoryRejected s =
           s\<lparr>pendingHistory := 0,
             trace := trace s @ [ConsoleError ''Failed to fetch conversation messages:'']\<rparr>"
    using st one by (simp add: step_handle) (simp add: handler_defs)
  have q: "quiet (step HistoryRejected s)"
    using p assms(2) by (simp add: quiet_after_history)
  have "filter is_fetch (trace s') = filter is_fetch (trace s)"
    if "run es' (step HistoryRejected s) = Some s'"
    using quiet_run [OF q that] by (simp add: eq)
  then show ?thesis using eq by simp
qed

theorem C7_witness:
  "run [Mount, CreateResolved 1, WsOpen 0] (init None Map.empty) = Some open_state
   \<and> enabled HistoryRejected open_state
   \<and> messages (step HistoryRejected open_state) = messages open_state
   \<and> trace (step HistoryRejected open_state) =
       trace open_state @ [ConsoleError ''Failed to fetch conversation messages:'']
   \<and> run [WsMessage 0 (js ''yo''), Unmount] (step HistoryRejected open_state)
       = Some (step Unmount (step (WsMessage 0 (js ''yo'')) (step HistoryRejected open_state)))
   \<and> filter is_fetch (trace (step Unmount (step (WsMessage 0 (js ''yo'')) (step HistoryRejected open_state))))
       = filter is_fetch (trace open_state)"
proof -
  have e: "enabled HistoryRejected open_state"
    by (simp add: open_state_def eval_defs)
  have r: "run [WsMessage 0 (js ''yo''), Unmount] (step HistoryRejected open_state)
       = Some (step Unmount (step (WsMessage 0 (js ''yo'')) (step HistoryRejected open_state)))"
    by (simp add: open_state_def eval_defs)
  note w = C7_history_failure_keeps_log [OF run_open_state e,
      of "[WsMessage 0 (js ''yo''), Unmount]"
         "step Unmount (step (WsMessage 0 (js ''yo'')) (step HistoryRejected open_state))"]
  from w r have f: "filter is_fetch (trace (step Unmount (step (WsMessage 0 (js ''yo''))
      (step HistoryRejected open_state)))) = filter is_fetch (trace open_state)"
    by blast
  from w have m: "messages (step HistoryRejected open_state) = messages open_state"
    by blast
  have t: "trace (step HistoryRejected open_state) =
       trace open_state @ [ConsoleError ''Failed to fetch conversation messages:'']"
    by (subst conjunct1 [OF w]) simp
  show ?thesis using run_open_state e r m t f by blast
qed

subsection \<open>The log after the history load\<close>

text \<open>
  C9. Take any session, let its history load with \<open>msgs\<close>, and let it continue with
  any events \<open>es1\<close> and then any events \<open>es2\<close>. The loaded list is a prefix of the
  log after \<open>es1\<close>, and that log is a prefix of the log after \<open>es2\<close>: entries are
  only added at the end, and none is reordered, changed or removed. In particular an
  inbound frame, a dispatch and a key press each leave the log they find as a prefix of
  the log they produce.
\<close>

theorem C9_log_append_only:
  assumes "run es (init env store) = Some s"
    and "run (HistoryResolved msgs # es1) s = Some s1"
    and "run es2 s1 = Some s2"
  shows "prefix (map load_message msgs) (messages s1)
       \<and> prefix (messages s1) (messages s2)
       \<and> prefix (messages s2) (messages (step (WsMessage i d) s2))
       \<and> prefix (messages s2) (messages (dispatch t s2))
       \<and> prefix (messages s2) (messages (step (KeyDown k) s2))"
proof -
  have p: "pending_ok s" using assms(1) by (rule run_pending_ok)
  from assms(2) have en: "0 < pendingHistory s"
    and r1: "run es1 (step (HistoryResolved msgs) s) = Some s1"
    by (simp_all split: if_splits)
  have q: "quiet (step (HistoryResolved msgs) s)"
    using p en by (rule quiet_after_history)
  have m: "messages (step (HistoryResolved msgs) s) = map load_message msgs"
    by (simp add: step_def commit_fields handler_defs)
  from quiet_run [OF q r1] have q1: "quiet s1"
    and p1: "prefix (map load_message msgs) (messages s1)"
    by (simp_all add: m)
  from quiet_run [OF q1 assms(3)] have p2: "prefix (messages s1) (messages s2)"
    by simp
  have "prefix (messages s2) (messages (step (ChangeInput t) s2))"
    by (simp add: messages_step)
  moreover have "prefix (messages (step (ChangeInput t) s2)) (messages (dispatch t s2))"
    unfolding dispatch_def by (simp add: messages_step)
  ultimately have p3: "prefix (messages s2) (messages (dispatch t s2))"
    by (rule prefix_order.trans)
  show ?thesis using p1 p2 p3 by (simp add: messages_step)
qed

lemma run_open_chat_state:
  "run (HistoryResolved [\<lparr>m_id = 1, m_sender = js ''user'', m_content = js ''hi''\<rparr>] #
        [ChangeInput (js ''  hello  ''), ClickSend, WsMessage 0 (js ''yo'')]) open_state
     = Some chat_state"
  by (simp add: chat_state_def history_state_def open_state_def eval_defs string_defs)

lemma run_after_chat_state:
  "run [WsMessage 0 (js ''again''), Unmount] chat_state
     = Some (step Unmount (step (WsMessage 0 (js ''again'')) chat_state))"
  by (simp add: chat_state_def history_state_def open_state_def eval_defs string_defs)

theorem C9_witness:
  "run [Mount, CreateResolved 1, WsOpen 0] (init None Map.empty) = Some open_state
   \<and> run (HistoryResolved [\<lparr>m_id = 1, m_sender = js ''user'', m_content = js ''hi''\<rparr>] #
        [ChangeInput (js ''  hello  ''), ClickSend, WsMessage 0 (js ''yo'')]) open_state
       = Some chat_state
   \<and> run [WsMessage 0 (js ''again''), Unmount] chat_state
       = Some (step Unmount (step (WsMessage 0 (js ''again'')) chat_state))
   \<and> prefix (map load_message [\<lparr>m_id = 1, m_sender = js ''user'', m_content = js ''hi''\<rparr>])
        (messages chat_state)
   \<and> prefix (messages chat_state)
        (messages (step Unmount (step (WsMessage 0 (js ''again'')) chat_state)))"
  using C9_log_append_only [OF run_open_state run_open_chat_state run_after_chat_state]
    run_open_state run_open_chat_state run_after_chat_state
  by blast

subsection \<open>Dispatch on an open connection\<close>

lemma sendMessage_open:
  assumes "socketRef s = Some ws" and "ready_of s ws = Some OPEN" and "trim (input s) \<noteq> []"
  shows "sendMessage s =
     s\<lparr>messages := messages s @ [\<lparr>msg_id = None, sender = User, content = trim (input s)\<rparr>],
       input := [],
       sockets := (sockets s)[ws := (sockets s ! ws)\<lparr>sent := sent (sockets s ! ws) @ [trim (input s)]\<rparr>],
       trace := trace s @ [ConsoleLog ''Sending user message:'', Send ws (trim (input s))]\<rparr>"
proof -
  from assms(2) have "ws < length (sockets s)" and "readyState (sockets s ! ws) = OPEN"
    by (simp_all add: ready_of_def split: if_splits)
  then show ?thesis using assms
    by (simp add: sendMessage_def ws_send_def emit_def Let_def)
qed

lemma sendMessage_blank:
  "\<not> not_connected s \<Longrightarrow> trim (input s) = [] \<Longrightarrow> sendMessage s = s"
  by (simp add: not_connected_def sendMessage_def split: option.splits)

lemma map_sent_grows:
  assumes "i < length xs"
  shows "map sent (xs[i := (xs ! i)\<lparr>sent := sent (xs ! i) @ [f]\<rparr>]) \<noteq> map sent xs"
proof
  assume "map sent (xs[i := (xs ! i)\<lparr>sent := sent (xs ! i) @ [f]\<rparr>]) = map sent xs"
  then have "map sent (xs[i := (xs ! i)\<lparr>sent := sent (xs ! i) @ [f]\<rparr>]) ! i = map sent xs ! i"
    by simp
  with assms show False by simp
qed

lemma sendMessage_sync:
  "(messages (sendMessage s) \<noteq> messages s) = (map sent (sockets (sendMessage s)) \<noteq> map sent (sockets s))"
proof (cases "not_connected s")
  case True
  then show ?thesis by (simp add: sendMessage_not_connected)
next
  case conn: False
  show ?thesis
  proof (cases "trim (input s) = []")
    case True
    with conn show ?thesis by (simp add: sendMessage_blank)
  next
    case False
    from conn obtain ws where ws: "socketRef s = Some ws" "ready_of s ws = Some OPEN"
      by (auto simp: not_connected_def split: option.splits)
    then have "ws < length (sockets s)" by (simp add: ready_of_def split: if_splits)
    then show ?thesis using sendMessage_open [OF ws False] by (simp add: map_sent_grows)
  qed
qed

text \<open>
  C2, amended. In any state a session can reach: if the socket \<open>ws\<close> of
  \<open>socketRef\<close> is open and the text \<open>t\<close> is not empty after trimming, dispatching
  \<open>t\<close> appends exactly one message (sender \<open>User\<close>, content \<open>trim t\<close>, no id) to
  the log, hands exactly one frame \<open>trim t\<close> to that socket and to no other, and
  clears the input field. For every text and every connection state, the log changes if
  and only if a frame is sent.
\<close>

theorem C2_dispatch_open_nonblank:
  assumes "run es (init env store) = Some s"
  shows "(socketRef s = Some ws \<and> ready_of s ws = Some OPEN \<and> trim t \<noteq> [] \<longrightarrow>
           dispatch t s =
             s\<lparr>messages := messages s @ [\<lparr>msg_id = None, sender = User, content = trim t\<rparr>],
               input := [],
               sockets := (sockets s)[ws := (sockets s ! ws)\<lparr>sent := sent (sockets s ! ws) @ [trim t]\<rparr>],
               trace := trace s @ [ConsoleLog ''Sending user message:'', Send ws (trim t)]\<rparr>)
       \<and> ((messages (dispatch t s) \<noteq> messages s) =
            (map sent (sockets (dispatch t s)) \<noteq> map sent (sockets s)))"
proof -
  have st: "stable s" using assms by (rule run_stable)
  then have d: "dispatch t s = sendMessage (s\<lparr>input := t\<rparr>)" by (rule dispatch_sendMessage)
  have "sendMessage (s\<lparr>input := t\<rparr>) =
      s\<lparr>messages := messages s @ [\<lparr>msg_id = None, sender = User, content = trim t\<rparr>],
        input := [],
        sockets := (sockets s)[ws := (sockets s ! ws)\<lparr>sent := sent (sockets s ! ws) @ [trim t]\<rparr>],
        trace := trace s @ [ConsoleLog ''Sending user message:'', Send ws (trim t)]\<rparr>"
    if h: "socketRef s = Some ws" "ready_of s ws = Some OPEN" "trim t \<noteq> []"
  proof -
    have r: "ready_of (s\<lparr>input := t\<rparr>) ws = Some OPEN"
      using h(2) by (simp add: ready_of_def split: if_splits)
    have "socketRef (s\<lparr>input := t\<rparr>) = Some ws" "trim (input (s\<lparr>input := t\<rparr>)) \<noteq> []"
      using h by simp_all
    from sendMessage_open [OF this(1) r this(2)] show ?thesis by simp
  qed
  moreover have "(messages (dispatch t s) \<noteq> messages s) =
            (map sent (sockets (dispatch t s)) \<noteq> map sent (sockets s))"
    using sendMessage_sync [of "s\<lparr>input := t\<rparr>"] by (simp add: d)
  ultimately show ?thesis by (simp add: d)
qed

lemma socketRef_open_state: "socketRef open_state = Some 0"
  by (simp add: open_state_def eval_defs)

lemma trim_hello: "trim (js ''  hello  '') = js ''hello''"
  by (simp add: string_defs)

theorem C2_witness:
  "run [Mount, CreateResolved 1, WsOpen 0] (init None Map.empty) = Some open_state
   \<and> socketRef open_state = Some 0 \<and> ready_of open_state 0 = Some OPEN
   \<and> trim (js ''  hello  '') = js ''hello''
   \<and> messages (dispatch (js ''  hello  '') open_state)
       = [\<lparr>msg_id = None, sender = User, content = js ''hello''\<rparr>]
   \<and> map sent (sockets (dispatch (js ''  hello  '') open_state)) = [[js ''hello'']]
   \<and> input (dispatch (js ''  hello  '') open_state) = []"
proof -
  have ne: "trim (js ''  hello  '') \<noteq> []" by (simp add: string_defs)
  note w = C2_dispatch_open_nonblank [OF run_open_state, of 0 "js ''  hello  ''"]
  from w socketRef_open_state ready_open_state ne
  have eq: "dispatch (js ''  hello  '') open_state =
      open_state\<lparr>messages := messages open_state @
          [\<lparr>msg_id = None, sender = User, content = trim (js ''  hello  '')\<rparr>],
        input := [],
        sockets := (sockets open_state)[0 := (sockets open_state ! 0)
          \<lparr>sent := sent (sockets open_state ! 0) @ [trim (js ''  hello  '')]\<rparr>],
        trace := trace open_state @ [ConsoleLog ''Sending user message:'',
          Send 0 (trim (js ''  hello  ''))]\<rparr>"
    by blast
  have m: "messages open_state = []"
    and s: "length (sockets open_state) = 1" "sent (sockets open_state ! 0) = []"
    by (simp_all add: open_state_def eval_defs)
  have "messages (dispatch (js ''  hello  '') open_state)
       = [\<lparr>msg_id = None, sender = User, content = js ''hello''\<rparr>]"
    by (subst eq) (simp add: m trim_hello)
  moreover have "map sent (sockets (dispatch (js ''  hello  '') open_state)) = [[js ''hello'']]"
    using s by (subst eq) (simp add: trim_hello length_Suc_conv, auto)
  moreover have "input (dispatch (js ''  hello  '') open_state) = []"
    by (subst eq) simp
  ultimately show ?thesis
    using run_open_state socketRef_open_state ready_open_state trim_hello by blast
qed

text \<open>
  C2 as stated fails for a text that is blank after trimming: with the connection open,
  dispatching three spaces appends no message and sends no frame; nothing is logged.
\<close>

theorem C2_counterexample:
  "run [Mount, CreateResolved 1, WsOpen 0] (init None Map.empty) = Some open_state
   \<and> not_connected open_state = False
   \<and> messages (dispatch (js ''   '') open_state) = messages open_state
   \<and> map sent (sockets (dispatch (js ''   '') open_state)) = map sent (sockets open_state)
   \<and> trace (dispatch (js ''   '') open_state) = trace open_state"
  by (simp add: open_state_def eval_defs string_defs)

subsection \<open>Outbound content\<close>

lemma map_sent_ready: "map sent (xs[i := (xs ! i)\<lparr>readyState := r\<rparr>]) = map sent xs"
  by (cases "i < length xs") (simp_all add: map_update list_update_same_conv list_update_beyond)

lemma sent_ws_close: "map sent (sockets (ws_close i s)) = map sent (sockets s)"
  by (simp add: ws_close_def emit_def map_sent_ready)

lemma sent_commit: "concat (map sent (sockets (commit s))) = concat (map sent (sockets s))"
proof -
  have c: "map sent (sockets (ws_cleanup s)) = map sent (sockets s)"
    by (simp add: ws_cleanup_def sent_ws_close emit_def split: option.splits)
  have h: "sockets (history_effect k t) = sockets t" for k t
    by (simp add: history_effect_def emit_def split: option.splits)
  have w: "concat (map sent (sockets (ws_effect k t))) = concat (map sent (sockets t))" for k t
    by (simp add: ws_effect_def emit_def Let_def split: option.splits)
  show ?thesis by (simp add: commit_def w h c)
qed

lemma outbound_sendMessage:
  assumes "outbound_nonempty s"
  shows "outbound_nonempty (sendMessage s)"
proof (cases "not_connected s")
  case True
  then show ?thesis using assms by (simp add: sendMessage_not_connected outbound_nonempty_def)
next
  case conn: False
  show ?thesis
  proof (cases "trim (input s) = []")
    case True
    with conn assms show ?thesis by (simp add: sendMessage_blank)
  next
    case False
    from conn obtain ws where ws: "socketRef s = Some ws" "ready_of s ws = Some OPEN"
      by (auto simp: not_connected_def split: option.splits)
    have "f \<noteq> []" if "f \<in> set (sent y)" "y \<in> set ((sockets s)
        [ws := (sockets s ! ws)\<lparr>sent := sent (sockets s ! ws) @ [trim (input s)]\<rparr>])" for f y
    proof -
      from that(2) have "y = (sockets s ! ws)\<lparr>sent := sent (sockets s ! ws) @ [trim (input s)]\<rparr>
          \<or> y \<in> set (sockets s)"
        by (auto dest: set_update_subset_insert [THEN subsetD])
      moreover have "ws < length (sockets s)"
        using ws(2) by (simp add: ready_of_def split: if_splits)
      ultimately show ?thesis using that(1) assms False
        by (auto simp: outbound_nonempty_def)
    qed
    then show ?thesis using assms False
      by (auto simp: sendMessage_open [OF ws False] outbound_nonempty_def)
  qed
qed

lemma outbound_handle:
  assumes "outbound_nonempty s"
  shows "outbound_nonempty (handle e s)"
proof (cases e)
  case ClickSend
  then show ?thesis using assms by (simp add: outbound_sendMessage)
next
  case (KeyDown k)
  then show ?thesis using assms by (simp add: handleKeyDown_def outbound_sendMessage)
next
  case Mount
  have "concat (map sent (sockets (mount s))) = concat (map sent (sockets s))"
    by (simp add: handler_defs Let_def split: option.splits)
  then show ?thesis using assms Mount by (simp add: outbound_nonempty_def mount_fields)
next
  case Unmount
  have "map sent (sockets (unmount s)) = map sent (sockets s)"
    by (simp add: unmount_def ws_cleanup_def sent_ws_close emit_def split: option.splits)
  moreover have "messages (unmount s) = messages s"
    by (simp add: handler_defs split: option.splits)
  ultimately show ?thesis using assms Unmount by (simp add: outbound_nonempty_def)
next
  case (HistoryResolved msgs)
  then show ?thesis using assms
    by (simp add: outbound_nonempty_def handler_defs load_message_def)
next
  case (WsMessage i d)
  then show ?thesis using assms
    by (simp add: outbound_nonempty_def handler_defs botMsg_def)
qed (use assms in \<open>simp_all add: outbound_nonempty_def handler_defs Let_def map_sent_ready\<close>)

lemma outbound_step: "outbound_nonempty s \<Longrightarrow> outbound_nonempty (step e s)"
  using outbound_handle [of s e]
  by (simp add: step_def outbound_nonempty_def sent_commit commit_fields)

lemma run_outbound: "run es (init env store) = Some s \<Longrightarrow> outbound_nonempty s"
  by (erule run_invariant) (simp_all add: outbound_step, simp add: outbound_nonempty_def init_def)

text \<open>
  C5. In any state a session can reach: dispatching, with the connection open, a text
  \<open>t\<close> whose trimmed form is empty changes nothing but the input field, which holds
  \<open>t\<close>: no message is appended, no frame is sent, nothing is logged and no alert is
  raised. And in every such state no frame handed to any socket is empty, and no
  message of the log with sender \<open>User\<close> and no id has empty content.
\<close>

theorem C5_blank_dispatch_is_noop:
  assumes "run es (init env store) = Some s"
  shows "(\<not> not_connected s \<and> trim t = [] \<longrightarrow> dispatch t s = s\<lparr>input := t\<rparr>)
       \<and> [] \<notin> set (concat (map sent (sockets s)))
       \<and> (\<forall>m \<in> set (messages s). msg_id m = None \<and> sender m = User \<longrightarrow> content m \<noteq> [])"
proof -
  have st: "stable s" using assms by (rule run_stable)
  have "dispatch t s = s\<lparr>input := t\<rparr>" if "\<not> not_connected s" "trim t = []"
    using that sendMessage_blank [of "s\<lparr>input := t\<rparr>"]
    by (simp add: dispatch_sendMessage [OF st] not_connected_input)
  moreover have "outbound_nonempty s" using assms by (rule run_outbound)
  ultimately show ?thesis unfolding outbound_nonempty_def by blast
qed

lemma run_init_chat_state:
  "run [Mount, CreateResolved 1, WsOpen 0,
        HistoryResolved [\<lparr>m_id = 1, m_sender = js ''user'', m_content = js ''hi''\<rparr>],
        ChangeInput (js ''  hello  ''), ClickSend, WsMessage 0 (js ''yo'')] (init None Map.empty)
     = Some chat_state"
  by (simp add: chat_state_def history_state_def open_state_def eval_defs string_defs)

lemma chat_state_connected: "not_connected chat_state = False"
  by (simp add: chat_state_def history_state_def open_state_def eval_defs string_defs)

lemma trim_blank: "trim (js ''   '') = []"
  by (simp add: string_defs)

theorem C5_witness:
  "run [Mount, CreateResolved 1, WsOpen 0,
        HistoryResolved [\<lparr>m_id = 1, m_sender = js ''user'', m_content = js ''hi''\<rparr>],
        ChangeInput (js ''  hello  ''), ClickSend, WsMessage 0 (js ''yo'')] (init None Map.empty)
     = Some chat_state
   \<and> not_connected chat_state = False
   \<and> trim (js ''   '') = []
   \<and> dispatch (js ''   '') chat_state = chat_state\<lparr>input := js ''   ''\<rparr>
   \<and> [] \<notin> set (concat (map sent (sockets chat_state)))
   \<and> concat (map sent (sockets chat_state)) = [js ''hello'']"
proof -
  note w = C5_blank_dispatch_is_noop [OF run_init_chat_state, of "js ''   ''"]
  from w chat_state_connected trim_blank
  have "dispatch (js ''   '') chat_state = chat_state\<lparr>input := js ''   ''\<rparr>" by blast
  moreover from w have "[] \<notin> set (concat (map sent (sockets chat_state)))" by blast
  moreover have "concat (map sent (sockets chat_state)) = [js ''hello'']"
    by (simp add: chat_state_def history_state_def open_state_def eval_defs string_defs)
  ultimately show ?thesis
    using run_init_chat_state chat_state_connected trim_blank by blast
qed

lemma inbound_Cons: "inbound (e # es) = inbound [e] @ inbound es"
  by (cases e) simp_all

lemma handle_appended:
  "\<not> is_history e \<Longrightarrow>
   \<exists>ms. messages (handle e s) = messages s @ ms \<and> bot_messages ms = map botMsg (inbound [e])"
  by (cases e)
     (simp_all add: handler_defs Let_def botMsg_def bot_messages_def
        split: option.splits ready_state.splits)

lemma run_appended:
  "run es s = Some s' \<Longrightarrow> filter is_history es = [] \<Longrightarrow>
   \<exists>ms. messages s' = messages s @ ms \<and> bot_messages ms = map botMsg (inbound es)"
proof (induction es arbitrary: s)
  case Nil
  then show ?case by (simp add: bot_messages_def)
next
  case (Cons e es)
  from Cons.prems(2) have h: "\<not> is_history e" and hs: "filter is_history es = []"
    by (simp_all split: if_splits)
  from Cons.prems(1) have r: "run es (step e s) = Some s'"
    by (simp split: if_splits)
  from handle_appended [OF h, of s] obtain ms1
    where m1: "messages (step e s) = messages s @ ms1"
      and b1: "bot_messages ms1 = map botMsg (inbound [e])"
    by (auto simp: step_def commit_fields)
  from Cons.IH [OF r hs] obtain ms2
    where m2: "messages s' = messages (step e s) @ ms2"
      and b2: "bot_messages ms2 = map botMsg (inbound es)"
    by blast
  have "messages s' = messages s @ (ms1 @ ms2)" by (simp add: m1 m2)
  moreover have "bot_messages (ms1 @ ms2) = map botMsg (inbound (e # es))"
    using b1 b2 by (simp add: bot_messages_def inbound_Cons [of e es])
  ultimately show ?case by blast
qed

text \<open>
  C3, amended. In any state \<open>s\<close> a session can reach: if socket \<open>i\<close> is open and the
  frames \<open>fs\<close> arrive on it one after the other, with no other event between them,
  every one of them is delivered and the message log grows by exactly one message per
  frame, in arrival order. If any events \<open>es\<close> follow \<open>s\<close>, among them no history
  request that succeeds, the log keeps what it held, and the bot messages it gains are
  exactly the frames among \<open>es\<close>, one message per frame, in arrival order. Each such
  message has sender \<open>Bot\<close>, the frame as it came for content, and no id; equal frames
  are not merged.
\<close>

theorem C3_inbound_frames_appended_in_order:
  assumes "run es0 (init env store) = Some s"
  shows "(ready_of s i = Some OPEN \<longrightarrow>
            map_option messages (run (map (WsMessage i) fs) s)
              = Some (messages s @ map botMsg fs))
       \<and> (run es s = Some s' \<and> filter is_history es = [] \<longrightarrow>
            messages s' = messages s @ drop (length (messages s)) (messages s')
          \<and> bot_messages (drop (length (messages s)) (messages s')) = map botMsg (inbound es))
       \<and> map msg_id (map botMsg fs) = map (\<lambda>f. None) fs
       \<and> map sender (map botMsg fs) = map (\<lambda>f. Bot) fs
       \<and> map content (map botMsg fs) = fs"
proof -
  have st: "stable s" using assms(1) by (rule run_stable)
  have one: "map_option messages (run (map (WsMessage i) fs) s)
      = Some (messages s @ map botMsg fs)" if "ready_of s i = Some OPEN"
    using st that by (rule frames_run)
  have two: "messages s' = messages s @ drop (length (messages s)) (messages s')
          \<and> bot_messages (drop (length (messages s)) (messages s')) = map botMsg (inbound es)"
    if "run es s = Some s'" and "filter is_history es = []"
  proof -
    from run_appended [OF that] obtain ms
      where "messages s' = messages s @ ms" and "bot_messages ms = map botMsg (inbound es)"
      by blast
    then show ?thesis by simp
  qed
  have three: "map content (map botMsg fs) = fs"
    by (induction fs) (simp_all add: botMsg_def)
  have four: "map msg_id (map botMsg fs) = map (\<lambda>f. None) fs"
    "map sender (map botMsg fs) = map (\<lambda>f. Bot) fs"
    by (simp_all add: botMsg_def comp_def)
  show ?thesis using one two three four by blast
qed

lemma run_interleaved_state:
  "run [WsMessage 0 (js ''a''), ChangeInput (js ''hi''), ClickSend, HistoryRejected,
        WsMessage 0 (js ''b'')] open_state = Some interleaved_state"
  by (simp add: interleaved_state_def open_state_def eval_defs string_defs)

lemma messages_open_state: "messages open_state = []"
  by (simp add: open_state_def eval_defs)

lemma messages_interleaved_state:
  "messages interleaved_state =
     [botMsg (js ''a''), \<lparr>msg_id = None, sender = User, content = js ''hi''\<rparr>, botMsg (js ''b'')]"
  by (simp add: interleaved_state_def open_state_def eval_defs string_defs)

lemma not_history_interleaved:
  "filter is_history [WsMessage 0 (js ''a''), ChangeInput (js ''hi''), ClickSend,
     HistoryRejected, WsMessage 0 (js ''b'')] = []"
  by simp

theorem C3_witness:
  "run [Mount, CreateResolved 1, WsOpen 0] (init None Map.empty) = Some open_state
   \<and> ready_of open_state 0 = Some OPEN
   \<and> map_option messages (run (map (WsMessage 0) [js ''a'', js ''b'', js ''a'']) open_state)
       = Some [botMsg (js ''a''), botMsg (js ''b''), botMsg (js ''a'')]
   \<and> run [WsMessage 0 (js ''a''), ChangeInput (js ''hi''), ClickSend, HistoryRejected,
          WsMessage 0 (js ''b'')] open_state = Some interleaved_state
   \<and> filter is_history [WsMessage 0 (js ''a''), ChangeInput (js ''hi''), ClickSend,
          HistoryRejected, WsMessage 0 (js ''b'')] = []
   \<and> messages interleaved_state =
       [botMsg (js ''a''), \<lparr>msg_id = None, sender = User, content = js ''hi''\<rparr>,
        botMsg (js ''b'')]
   \<and> bot_messages (messages interleaved_state) = [botMsg (js ''a''), botMsg (js ''b'')]"
proof -
  note w = C3_inbound_frames_appended_in_order [OF run_open_state, of 0
      "[js ''a'', js ''b'', js ''a'']"
      "[WsMessage 0 (js ''a''), ChangeInput (js ''hi''), ClickSend, HistoryRejected,
        WsMessage 0 (js ''b'')]" interleaved_state]
  from w ready_open_state
  have "map_option messages (run (map (WsMessage 0) [js ''a'', js ''b'', js ''a'']) open_state)
       = Some (messages open_state @ map botMsg [js ''a'', js ''b'', js ''a''])"
    by blast
  then have a: "map_option messages
      (run (map (WsMessage 0) [js ''a'', js ''b'', js ''a'']) open_state)
       = Some [botMsg (js ''a''), botMsg (js ''b''), botMsg (js ''a'')]"
    by (simp only: messages_open_state append_Nil list.map)
  from w run_interleaved_state not_history_interleaved
  have "bot_messages (drop (length (messages open_state)) (messages interleaved_state))
      = map botMsg (inbound [WsMessage 0 (js ''a''), ChangeInput (js ''hi''), ClickSend,
          HistoryRejected, WsMessage 0 (js ''b'')])"
    by blast
  then have b: "bot_messages (messages interleaved_state) = [botMsg (js ''a''), botMsg (js ''b'')]"
    by (simp add: messages_open_state)
  show ?thesis
    using run_open_state ready_open_state a run_interleaved_state not_history_interleaved
      messages_interleaved_state b
    by blast
qed

text \<open>
  C3 as stated fails when the history request succeeds between two frames: the frames
  \<open>a\<close> and \<open>b\<close> arrive in that order on the open socket, and the log holds one message.
\<close>

theorem C3_counterexample:
  "map_option messages
     (run [Mount, CreateResolved 1, WsOpen 0, WsMessage 0 (js ''a''), HistoryResolved [],
           WsMessage 0 (js ''b'')] (init None Map.empty))
     = Some [botMsg (js ''b'')]
   \<and> inbound [Mount, CreateResolved 1, WsOpen 0, WsMessage 0 (js ''a''), HistoryResolved [],
           WsMessage 0 (js ''b'')] = [js ''a'', js ''b'']"
  by (simp add: eval_defs)

subsection \<open>Identity resolution\<close>

lemma create_commit: "filter is_create (trace (commit s)) = filter is_create (trace s)"
  by (simp add: commit_def handler_defs Let_def split: option.splits)

lemma create_handle:
  "e \<noteq> Mount \<Longrightarrow> filter is_create (trace (handle e s)) = filter is_create (trace s)"
  by (cases e) (simp_all add: handler_defs Let_def split: option.splits ready_state.splits)

lemma apiUrl_handle: "apiUrl (handle e s) = apiUrl s"
  by (cases e) (simp_all add: handler_defs Let_def split: option.splits ready_state.splits)

lemma phase_handle: "e \<noteq> Mount \<Longrightarrow> phase s \<noteq> Fresh \<Longrightarrow> phase (handle e s) \<noteq> Fresh"
  by (cases e) (simp_all add: handler_defs Let_def split: option.splits ready_state.splits)

lemma create_mount:
  "filter is_create (trace (mount s)) =
     filter is_create (trace s) @
     (if truthy (localStorage s storageKey) then []
      else [Fetch POST (baseUrl s @ js ''/conversations/new'')])"
  by (simp add: handler_defs Let_def baseUrl_def split: option.splits)

lemma creation_ok_step:
  assumes "creation_ok env store s" and "pending_ok s" and "enabled e s"
  shows "creation_ok env store (step e s)"
proof (cases "e = Mount")
  case True
  with assms have "phase s = Fresh" "trace s = []" "localStorage s = store" "apiUrl s = env"
    by (simp_all add: creation_ok_def)
  then show ?thesis using True
    by (simp add: creation_ok_def step_def commit_fields create_commit create_mount
        mount_fields baseUrl_def apiUrl_handle [of Mount, simplified])
next
  case False
  have "phase s \<noteq> Fresh"
  proof
    assume f: "phase s = Fresh"
    with assms(1,2) have "sockets s = []" "pendingCreate s = 0" "pendingHistory s = 0"
      by (simp_all add: creation_ok_def pending_ok_def)
    with f False assms(3) show False
      by (cases e) (simp_all add: ready_of_def)
  qed
  then show ?thesis using False assms(1)
    by (simp add: creation_ok_def step_def commit_fields create_commit create_handle
        phase_handle apiUrl_handle baseUrl_def del: handle.simps)
qed

lemma run_creation_ok:
  assumes "run es (init env store) = Some s"
  shows "creation_ok env store s"
proof -
  have "pending_ok s \<and> creation_ok env store s"
    using assms
  proof (rule run_invariant)
    show "pending_ok (init env store) \<and> creation_ok env store (init env store)"
      by (simp add: pending_ok_init) (simp add: creation_ok_def init_def)
  qed (simp add: pending_ok_step creation_ok_step)
  then show ?thesis ..
qed

lemma run_Mount_phase:
  assumes "run (Mount # es) (init env store) = Some s"
  shows "phase s \<noteq> Fresh"
proof -
  from assms have r: "run es (step Mount (init env store)) = Some s"
    by (simp split: if_splits)
  from r show ?thesis
  proof (rule run_invariant)
    show "phase (step Mount (init env store)) \<noteq> Fresh"
      by (simp add: step_def commit_fields mount_fields)
  next
    fix e s
    assume ph: "phase s \<noteq> Fresh" and en: "enabled e s"
    then have "e \<noteq> Mount" by (cases e) simp_all
    with ph show "phase (step e s) \<noteq> Fresh"
      by (simp add: step_def commit_fields phase_handle del: handle.simps)
  qed
qed

text \<open>
  C1, amended. In a session that starts with the mount of the page: if the storage
  holds no identifier (no entry, or the empty string), the trace of the session holds
  exactly one creation request, whatever happens later; if it holds one, the trace
  holds none. When the creation request succeeds with the identifier \<open>n\<close> while the
  page is mounted, no identifier has been shown to the effects before; the handler
  first writes the string of the number \<open>n\<close> has become to the storage, and only then
  the history request is issued and the WebSocket constructed, both with that same
  number in their URL. If \<open>n\<close> is a safe integer (magnitude below \<open>2^53\<close>) the number
  is \<open>n\<close> itself, its string is the decimal expansion of \<open>n\<close>, and reading that
  string back with \<open>parseInt\<close> gives \<open>n\<close> again.
\<close>

theorem C1_identity_resolution:
  assumes "run (Mount # es) (init env store) = Some s"
  shows "filter is_create (trace s) =
           (if truthy (store storageKey) then []
            else [Fetch POST (baseUrl s @ js ''/conversations/new'')])
       \<and> (enabled (CreateResolved n) s \<and> phase s = Mounted \<longrightarrow>
            conversationId s = None
          \<and> localStorage (step (CreateResolved n) s) storageKey = Some (String_js (to_double n))
          \<and> conversationId (step (CreateResolved n) s) = Some (to_double n)
          \<and> trace (step (CreateResolved n) s) =
              trace s @
              [SetItem storageKey (String_js (to_double n)),
               ConsoleLog ''Created conversation id:'',
               ConsoleLog ''Fetching messages for convo:'',
               Fetch GET (baseUrl s @ js ''/conversations/'' @ String_js (to_double n)
                          @ js ''/messages''),
               ConsoleLog ''Opening WebSocket for conversation:'',
               NewWebSocket (length (sockets s))
                 (replace_http_ws (baseUrl s) @ js ''/ws/chat?conversation_id=''
                  @ String_js (to_double n))])
       \<and> (\<bar>n\<bar> < 2 ^ 53 \<longrightarrow>
            to_double n = JInt n
          \<and> String_js (JInt n) = (if n < 0 then js ''-'' @ digits (nat (- n)) else digits (nat n))
          \<and> parseInt (String_js (JInt n)) = JInt n)"
proof -
  have c: "creation_ok env store s" using assms by (rule run_creation_ok)
  have ph: "phase s \<noteq> Fresh" using assms by (rule run_Mount_phase)
  have p: "pending_ok s" using assms by (rule run_pending_ok)
  from c ph have one: "filter is_create (trace s) =
           (if truthy (store storageKey) then []
            else [Fetch POST (baseUrl s @ js ''/conversations/new'')])"
    by (simp add: creation_ok_def)
  have two: "conversationId s = None
          \<and> localStorage (step (CreateResolved n) s) storageKey = Some (String_js (to_double n))
          \<and> conversationId (step (CreateResolved n) s) = Some (to_double n)
          \<and> trace (step (CreateResolved n) s) =
              trace s @
              [SetItem storageKey (String_js (to_double n)),
               ConsoleLog ''Created conversation id:'',
               ConsoleLog ''Fetching messages for convo:'',
               Fetch GET (baseUrl s @ js ''/conversations/'' @ String_js (to_double n)
                          @ js ''/messages''),
               ConsoleLog ''Opening WebSocket for conversation:'',
               NewWebSocket (length (sockets s))
                 (replace_http_ws (baseUrl s) @ js ''/ws/chat?conversation_id=''
                  @ String_js (to_double n))]"
    if en: "enabled (CreateResolved n) s" and m: "phase s = Mounted"
  proof -
    from p en have f: "conversationId s = None" "deps s = None" "cleanup s = None"
      by (auto simp: pending_ok_def split: if_splits)
    show ?thesis using f m
      by (simp add: step_def commit_def handler_defs Let_def baseUrl_def del: String_js.simps)
  qed
  have three: "to_double n = JInt n
          \<and> String_js (JInt n) = (if n < 0 then js ''-'' @ digits (nat (- n)) else digits (nat n))
          \<and> parseInt (String_js (JInt n)) = JInt n"
    if "\<bar>n\<bar> < 2 ^ 53"
    using that by (simp only: to_double_safe String_js_safe [symmetric] parseInt_String_js simp_thms)
  show ?thesis using one two three by blast
qed

lemma run_Mount_empty:
  "run (Mount # []) (init None Map.empty) = Some (step Mount (init None Map.empty))"
  by (simp add: init_def)

theorem C1_witness:
  "run (Mount # []) (init None Map.empty) = Some (step Mount (init None Map.empty))
   \<and> enabled (CreateResolved 7) (step Mount (init None Map.empty))
   \<and> phase (step Mount (init None Map.empty)) = Mounted
   \<and> \<bar>7 :: int\<bar> < 2 ^ 53
   \<and> to_double 7 = JInt 7
   \<and> parseInt (js ''7'') = JInt 7
   \<and> filter is_create (trace (step Mount (init None Map.empty)))
       = [Fetch POST (js ''http://127.0.0.1:8000/conversations/new'')]
   \<and> localStorage (step (CreateResolved 7) (step Mount (init None Map.empty))) storageKey
       = Some (js ''7'')
   \<and> trace (step (CreateResolved 7) (step Mount (init None Map.empty))) =
       [ConsoleLog ''No conversation in localStorage, creating new...'',
        Fetch POST (js ''http://127.0.0.1:8000/conversations/new''),
        SetItem storageKey (js ''7''),
        ConsoleLog ''Created conversation id:'',
        ConsoleLog ''Fetching messages for convo:'',
        Fetch GET (js ''http://127.0.0.1:8000/conversations/7/messages''),
        ConsoleLog ''Opening WebSocket for conversation:'',
        NewWebSocket 0 (js ''ws://127.0.0.1:8000/ws/chat?conversation_id=7'')]"
proof -
  have en: "enabled (CreateResolved 7) (step Mount (init None Map.empty))"
    and ph: "phase (step Mount (init None Map.empty)) = Mounted"
    by (simp_all add: eval_defs)
  have tr: "trace (step Mount (init None Map.empty)) =
      [ConsoleLog ''No conversation in localStorage, creating new...'',
        Fetch POST (js ''http://127.0.0.1:8000/conversations/new'')]"
    and so: "sockets (step Mount (init None Map.empty)) = []"
    and bu: "baseUrl (step Mount (init None Map.empty)) = js ''http://127.0.0.1:8000''"
    by (simp_all add: eval_defs js_def)
  have safe: "\<bar>7 :: int\<bar> < 2 ^ 53" by simp
  have d7: "digits 7 = js ''7''" by (simp add: digits.simps digitChar_def js_def)
  note w = C1_identity_resolution [OF run_Mount_empty, of 7]
  from w safe have td: "to_double 7 = JInt 7" by blast
  from w safe have "String_js (JInt 7) = (if (7::int) < 0 then js ''-'' @ digits (nat (- 7))
      else digits (nat 7))" by blast
  then have str: "String_js (JInt 7) = js ''7''" by (simp add: d7 del: String_js.simps)
  from w safe have "parseInt (String_js (JInt 7)) = JInt 7" by blast
  then have pi: "parseInt (js ''7'') = JInt 7" by (simp only: str)
  from w have cr: "filter is_create (trace (step Mount (init None Map.empty)))
       = [Fetch POST (js ''http://127.0.0.1:8000/conversations/new'')]"
    by (simp add: bu js_def)
  from w en ph
  have "localStorage (step (CreateResolved 7) (step Mount (init None Map.empty))) storageKey
       = Some (String_js (to_double 7))"
    by blast
  then have ls: "localStorage (step (CreateResolved 7) (step Mount (init None Map.empty)))
      storageKey = Some (js ''7'')"
    by (simp only: td str)
  from w en ph
  have "trace (step (CreateResolved 7) (step Mount (init None Map.empty))) =
       trace (step Mount (init None Map.empty)) @
       [SetItem storageKey (String_js (to_double 7)),
        ConsoleLog ''Created conversation id:'',
        ConsoleLog ''Fetching messages for convo:'',
        Fetch GET (baseUrl (step Mount (init None Map.empty)) @ js ''/conversations/''
                   @ String_js (to_double 7) @ js ''/messages''),
        ConsoleLog ''Opening WebSocket for conversation:'',
        NewWebSocket (length (sockets (step Mount (init None Map.empty))))
          (replace_http_ws (baseUrl (step Mount (init None Map.empty)))
           @ js ''/ws/chat?conversation_id='' @ String_js (to_double 7))]"
    by blast
  then have t7: "trace (step (CreateResolved 7) (step Mount (init None Map.empty))) =
       [ConsoleLog ''No conversation in localStorage, creating new...'',
        Fetch POST (js ''http://127.0.0.1:8000/conversations/new''),
        SetItem storageKey (js ''7''),
        ConsoleLog ''Created conversation id:'',
        ConsoleLog ''Fetching messages for convo:'',
        Fetch GET (js ''http://127.0.0.1:8000/conversations/7/messages''),
        ConsoleLog ''Opening WebSocket for conversation:'',
        NewWebSocket 0 (js ''ws://127.0.0.1:8000/ws/chat?conversation_id=7'')]"
    by (simp only: td str tr so bu) (simp add: replace_http_ws_def js_def)
  show ?thesis using run_Mount_empty en ph safe td pi cr ls t7 by blast
qed

lemma to_double_2_53_1: "to_double 9007199254740993 = JInt 9007199254740992"
  by (simp add: to_double_def round53_def bitlen.simps Let_def)

lemma length_digits_2_53: "length (digits 9007199254740992) = 16"
  by (simp add: digits.simps)

lemma shortest_2_53: "shortest 9007199254740992 (Suc 0) = 9007199254740992"
  by (simp add: shortest.simps length_digits_2_53 round53_def bitlen.simps Let_def)

lemma digits_2_53: "digits 9007199254740992 = js ''9007199254740992''"
  by (simp add: digits.simps digitChar_def js_def)

lemma digits_2_53_1: "digits 9007199254740993 = js ''9007199254740993''"
  by (simp add: digits.simps digitChar_def js_def)

lemma String_js_2_53: "String_js (JInt 9007199254740992) = js ''9007199254740992''"
  by (simp add: decimal_def shortest_2_53 length_digits_2_53 Let_def) (simp add: digits_2_53)

text \<open>
  C1 as stated fails for an identifier that no double holds: when the service returns
  9007199254740993, the identifier of the state, the string written to the storage and
  the identifier in both URLs are 9007199254740992.
\<close>

theorem C1_counterexample:
  "run [Mount, CreateResolved 9007199254740993] (init None Map.empty)
     = Some (step (CreateResolved 9007199254740993) (step Mount (init None Map.empty)))
   \<and> digits 9007199254740993 = js ''9007199254740993''
   \<and> conversationId (step (CreateResolved 9007199254740993) (step Mount (init None Map.empty)))
       = Some (JInt 9007199254740992)
   \<and> localStorage (step (CreateResolved 9007199254740993) (step Mount (init None Map.empty)))
        storageKey = Some (js ''9007199254740992'')
   \<and> trace (step (CreateResolved 9007199254740993) (step Mount (init None Map.empty))) =
       [ConsoleLog ''No conversation in localStorage, creating new...'',
        Fetch POST (js ''http://127.0.0.1:8000/conversations/new''),
        SetItem storageKey (js ''9007199254740992''),
        ConsoleLog ''Created conversation id:'',
        ConsoleLog ''Fetching messages for convo:'',
        Fetch GET (js ''http://127.0.0.1:8000/conversations/9007199254740992/messages''),
        ConsoleLog ''Opening WebSocket for conversation:'',
        NewWebSocket 0
          (js ''ws://127.0.0.1:8000/ws/chat?conversation_id=9007199254740992'')]"
  by (simp add: eval_defs to_double_2_53_1 String_js_2_53 digits_2_53_1 del: String_js.simps)
     (simp add: replace_http_ws_def js_def)

lemma takeWhile_no_digit: "\<forall>c \<in> set xs. \<not> isDigit c \<Longrightarrow> takeWhile isDigit xs = []"
  by (cases xs) simp_all

lemma parseInt_no_digit:
  assumes "\<forall>c \<in> set v. \<not> isDigit c"
  shows "parseInt v = JNaN"
proof -
  let ?S = "dropWhile isWhiteSpace v"
  let ?S' = "case ?S of c # r \<Rightarrow> if c = 0x2B \<or> c = 0x2D then r else ?S | [] \<Rightarrow> ?S"
  have "set ?S \<subseteq> set v" by (auto dest: set_dropWhileD)
  moreover have "set ?S' \<subseteq> set ?S" by (auto split: list.splits)
  ultimately have "\<forall>c \<in> set ?S'. \<not> isDigit c" using assms by blast
  then have "takeWhile isDigit ?S' = []" by (rule takeWhile_no_digit)
  then show ?thesis by (simp add: parseInt_def Let_def)
qed

lemma step_Mount_cached:
  assumes "store storageKey = Some v" and "v \<noteq> []"
  shows "conversationId (step Mount (init env store)) = Some (parseInt v)"
    and "trace (step Mount (init env store)) =
           [ConsoleLog ''Found existing conversation ID in localStorage:'',
            ConsoleLog ''Fetching messages for convo:'',
            Fetch GET (baseUrl (init env store) @ js ''/conversations/'' @ String_js (parseInt v)
                       @ js ''/messages''),
            ConsoleLog ''Opening WebSocket for conversation:'',
            NewWebSocket 0 (replace_http_ws (baseUrl (init env store))
                            @ js ''/ws/chat?conversation_id='' @ String_js (parseInt v))]"
  using assms
  by (simp_all add: step_def commit_def handler_defs init_def baseUrl_def Let_def)

text \<open>
  C10. If the storage holds any non-empty string \<open>v\<close> under the key, the mount issues
  no creation request, and no later event of the session does; the identifier becomes
  \<open>parseInt(v, 10)\<close> unchecked, and the history request and the WebSocket are built
  with it. What \<open>parseInt\<close> makes of \<open>v\<close>: leading white space \<open>w\<close> is skipped and one
  sign is taken; if no digit follows (\<open>r\<close> does not start with a digit) the result is
  \<open>NaN\<close>, so for such a cached value the identifier is \<open>NaN\<close> and no conversation is
  created; if the digits of \<open>m\<close> follow, after \<open>k\<close> zeros, the result is the double
  nearest to \<open>m\<close> (with the sign), whatever comes after the digits, which is \<open>m\<close>
  itself only below \<open>2^53\<close>.
\<close>

theorem C10_cached_value_not_validated:
  assumes "store storageKey = Some v" and "v \<noteq> []"
  shows "conversationId (step Mount (init env store)) = Some (parseInt v)
       \<and> trace (step Mount (init env store)) =
           [ConsoleLog ''Found existing conversation ID in localStorage:'',
            ConsoleLog ''Fetching messages for convo:'',
            Fetch GET (baseUrl (init env store) @ js ''/conversations/'' @ String_js (parseInt v)
                       @ js ''/messages''),
            ConsoleLog ''Opening WebSocket for conversation:'',
            NewWebSocket 0 (replace_http_ws (baseUrl (init env store))
                            @ js ''/ws/chat?conversation_id='' @ String_js (parseInt v))]
       \<and> (run es (init env store) = Some s \<longrightarrow> filter is_create (trace s) = [])
       \<and> ((\<forall>c \<in> set v. \<not> isDigit c) \<longrightarrow> parseInt v = JNaN)
       \<and> ((\<forall>x \<in> set w. isWhiteSpace x) \<and> takeWhile isDigit r = [] \<longrightarrow>
            (v = w @ 0x2B # r \<or> v = w @ 0x2D # r
               \<or> (v = w @ r \<and> takeWhile (\<lambda>c. isWhiteSpace c \<or> c = 0x2B \<or> c = 0x2D) r = [])
             \<longrightarrow> parseInt v = JNaN)
          \<and> (v = w @ replicate k (digitChar 0) @ digits m @ r
               \<or> v = w @ 0x2B # replicate k (digitChar 0) @ digits m @ r
             \<longrightarrow> parseInt v = to_double (int m))
          \<and> (v = w @ 0x2D # replicate k (digitChar 0) @ digits m @ r
             \<longrightarrow> parseInt v = (if m = 0 then JNegZero else to_double (- int m))))
       \<and> (m < 2 ^ 53 \<longrightarrow> to_double (int m) = JInt (int m)
                          \<and> to_double (- int m) = JInt (- int m))"
proof -
  have one: "filter is_create (trace s) = []" if r: "run es (init env store) = Some s"
  proof -
    have c: "creation_ok env store s" using r by (rule run_creation_ok)
    show ?thesis
    proof (cases "phase s = Fresh")
      case True
      with c show ?thesis by (simp add: creation_ok_def)
    next
      case False
      with c assms show ?thesis by (simp add: creation_ok_def)
    qed
  qed
  have nan: "parseInt v = JNaN"
    if "\<forall>x \<in> set w. isWhiteSpace x" and "takeWhile isDigit r = []"
      and "v = w @ 0x2B # r \<or> v = w @ 0x2D # r
           \<or> (v = w @ r \<and> takeWhile (\<lambda>c. isWhiteSpace c \<or> c = 0x2B \<or> c = 0x2D) r = [])"
    using that(3) parseInt_sign_NaN [OF that(1,2)] parseInt_plain_NaN [OF that(1,2)]
    by (elim disjE conjE) simp_all
  have pos: "parseInt v = to_double (int m)"
    if "\<forall>x \<in> set w. isWhiteSpace x" and "takeWhile isDigit r = []"
      and "v = w @ replicate k (digitChar 0) @ digits m @ r
           \<or> v = w @ 0x2B # replicate k (digitChar 0) @ digits m @ r"
    using that(3) parseInt_zeros_digits [OF that(1,2), of k m]
      parseInt_plus_zeros_digits [OF that(1,2), of k m]
    by (elim disjE) simp_all
  have neg: "parseInt v = (if m = 0 then JNegZero else to_double (- int m))"
    if "\<forall>x \<in> set w. isWhiteSpace x" and "takeWhile isDigit r = []"
      and "v = w @ 0x2D # replicate k (digitChar 0) @ digits m @ r"
    using that(3) parseInt_minus_zeros_digits [OF that(1,2), of k m] by simp
  have safe: "to_double (int m) = JInt (int m) \<and> to_double (- int m) = JInt (- int m)"
    if "m < 2 ^ 53"
  proof -
    from that have "int m < 2 ^ 53" by (simp add: nat_less_iff [symmetric])
    then show ?thesis by (simp add: to_double_safe)
  qed
  note step_Mount_cached [of store v env, OF assms] parseInt_no_digit [of v]
  then show ?thesis using one nan pos neg safe by blast
qed

lemma nan_store: "(Map.empty(storageKey \<mapsto> js ''abc'')) storageKey = Some (js ''abc'')"
  by simp

lemma run_nan_state:
  "run [Mount, WsOpen 0, HistoryRejected] (init None (Map.empty(storageKey \<mapsto> js ''abc'')))
     = Some (step HistoryRejected (step (WsOpen 0) nan_state))"
  by (simp add: nan_state_def eval_defs js_def)

lemma px_store:
  "(Map.empty(storageKey \<mapsto> js '' 0042px'')) storageKey = Some (js '' 0042px'')"
  by simp

lemma big_store:
  "(Map.empty(storageKey \<mapsto> js ''1000000000000000000000'')) storageKey
     = Some (js ''1000000000000000000000'')"
  by simp

lemma digits_42: "digits 42 = js ''42''"
  by (simp add: digits.simps digitChar_def js_def)

lemma digits_10_21: "digits 1000000000000000000000 = js ''1000000000000000000000''"
  by (simp add: digits.simps digitChar_def js_def)

lemma to_double_10_21: "to_double 1000000000000000000000 = JInt 1000000000000000000000"
  by (simp add: to_double_def round53_def bitlen.simps Let_def)

lemma length_digits_10_21: "length (digits 1000000000000000000000) = 22"
  by (simp add: digits_10_21 js_def)

lemma shortest_10_21: "shortest 1000000000000000000000 (Suc 0) = 1000000000000000000000"
  by (simp add: shortest.simps length_digits_10_21 round53_def bitlen.simps Let_def)

lemma String_js_10_21: "String_js (JInt 1000000000000000000000) = js ''1e+21''"
  by (simp add: decimal_def shortest_10_21 length_digits_10_21 Let_def)
     (simp add: digits_10_21 exponential_def digits.simps digitChar_def js_def)

theorem C10_witness:
  "(Map.empty(storageKey \<mapsto> js ''abc'')) storageKey = Some (js ''abc'')
   \<and> js ''abc'' \<noteq> []
   \<and> conversationId nan_state = Some JNaN
   \<and> run [Mount, WsOpen 0, HistoryRejected] (init None (Map.empty(storageKey \<mapsto> js ''abc'')))
       = Some (step HistoryRejected (step (WsOpen 0) nan_state))
   \<and> filter is_create (trace (step HistoryRejected (step (WsOpen 0) nan_state))) = []
   \<and> trace nan_state =
       [ConsoleLog ''Found existing conversation ID in localStorage:'',
        ConsoleLog ''Fetching messages for convo:'',
        Fetch GET (js ''http://127.0.0.1:8000/conversations/NaN/messages''),
        ConsoleLog ''Opening WebSocket for conversation:'',
        NewWebSocket 0 (js ''ws://127.0.0.1:8000/ws/chat?conversation_id=NaN'')]
   \<and> (Map.empty(storageKey \<mapsto> js '' 0042px'')) storageKey = Some (js '' 0042px'')
   \<and> js '' 0042px'' \<noteq> []
   \<and> conversationId (step Mount (init None (Map.empty(storageKey \<mapsto> js '' 0042px''))))
       = Some (JInt 42)
   \<and> (Map.empty(storageKey \<mapsto> js ''1000000000000000000000'')) storageKey
       = Some (js ''1000000000000000000000'')
   \<and> js ''1000000000000000000000'' \<noteq> []
   \<and> conversationId
        (step Mount (init None (Map.empty(storageKey \<mapsto> js ''1000000000000000000000''))))
       = Some (JInt 1000000000000000000000)
   \<and> trace (step Mount (init None (Map.empty(storageKey \<mapsto> js ''1000000000000000000000'')))) =
       [ConsoleLog ''Found existing conversation ID in localStorage:'',
        ConsoleLog ''Fetching messages for convo:'',
        Fetch GET (js ''http://127.0.0.1:8000/conversations/1e+21/messages''),
        ConsoleLog ''Opening WebSocket for conversation:'',
        NewWebSocket 0 (js ''ws://127.0.0.1:8000/ws/chat?conversation_id=1e+21'')]"
proof -
  have ne: "js ''abc'' \<noteq> []" by (simp add: js_def)
  have nd: "\<forall>c \<in> set (js ''abc''). \<not> isDigit c" by (simp add: js_def isDigit_def)
  note w = C10_cached_value_not_validated [of "Map.empty(storageKey \<mapsto> js ''abc'')"
      "js ''abc''" None "[Mount, WsOpen 0, HistoryRejected]"
      "step HistoryRejected (step (WsOpen 0) nan_state)", OF nan_store ne]
  from w nd have nan: "parseInt (js ''abc'') = JNaN" by blast
  from w have a1: "conversationId nan_state = Some JNaN"
    unfolding nan_state_def nan by blast
  from w run_nan_state
  have a2: "filter is_create (trace (step HistoryRejected (step (WsOpen 0) nan_state))) = []"
    by blast
  from w have a3: "trace nan_state =
       [ConsoleLog ''Found existing conversation ID in localStorage:'',
        ConsoleLog ''Fetching messages for convo:'',
        Fetch GET (js ''http://127.0.0.1:8000/conversations/NaN/messages''),
        ConsoleLog ''Opening WebSocket for conversation:'',
        NewWebSocket 0 (js ''ws://127.0.0.1:8000/ws/chat?conversation_id=NaN'')]"
    unfolding nan_state_def nan
    by (simp add: baseUrl_def init_def replace_http_ws_def js_def)
  have pne: "js '' 0042px'' \<noteq> []" by (simp add: js_def)
  have pw: "\<forall>x \<in> set (js '' ''). isWhiteSpace x" by (simp add: js_def isWhiteSpace_def)
  have pr: "takeWhile isDigit (js ''px'') = []" by (simp add: js_def isDigit_def)
  have pv: "js '' 0042px'' = js '' '' @ replicate (Suc (Suc 0)) (digitChar 0) @ digits 42 @ js ''px''"
    by (simp add: digits_42) (simp add: js_def digitChar_def)
  have ps: "(42::nat) < 2 ^ 53" by simp
  note x = C10_cached_value_not_validated [of "Map.empty(storageKey \<mapsto> js '' 0042px'')"
      "js '' 0042px''" None "[]" "init None Map.empty" "js '' ''" "js ''px''" "Suc (Suc 0)" 42,
      OF px_store pne]
  from x pw pr pv have "parseInt (js '' 0042px'') = to_double (int 42)" by blast
  moreover from x ps have "to_double (int 42) = JInt (int 42)" by blast
  ultimately have p42: "parseInt (js '' 0042px'') = JInt 42" by simp
  from x have b1: "conversationId (step Mount (init None (Map.empty(storageKey \<mapsto> js '' 0042px''))))
       = Some (JInt 42)"
    unfolding p42 by blast
  have bne: "js ''1000000000000000000000'' \<noteq> []" by (simp add: js_def)
  have bw: "\<forall>x \<in> set ([] :: jsstring). isWhiteSpace x" by simp
  have br: "takeWhile isDigit ([] :: jsstring) = []" by simp
  have bv: "js ''1000000000000000000000''
      = [] @ replicate 0 (digitChar 0) @ digits 1000000000000000000000 @ []"
    by (simp add: digits_10_21)
  note y = C10_cached_value_not_validated
      [of "Map.empty(storageKey \<mapsto> js ''1000000000000000000000'')"
      "js ''1000000000000000000000''" None "[]" "init None Map.empty" "[]" "[]" 0
      1000000000000000000000, OF big_store bne]
  from y bw br bv
  have "parseInt (js ''1000000000000000000000'') = to_double (int 1000000000000000000000)"
    by blast
  then have pb: "parseInt (js ''1000000000000000000000'') = JInt 1000000000000000000000"
    by (simp add: to_double_10_21)
  from y have c1: "conversationId
        (step Mount (init None (Map.empty(storageKey \<mapsto> js ''1000000000000000000000''))))
       = Some (JInt 1000000000000000000000)"
    unfolding pb by blast
  from y have c2: "trace (step Mount (init None (Map.empty(storageKey \<mapsto> js ''1000000000000000000000'')))) =
       [ConsoleLog ''Found existing conversation ID in localStorage:'',
        ConsoleLog ''Fetching messages for convo:'',
        Fetch GET (js ''http://127.0.0.1:8000/conversations/1e+21/messages''),
        ConsoleLog ''Opening WebSocket for conversation:'',
        NewWebSocket 0 (js ''ws://127.0.0.1:8000/ws/chat?conversation_id=1e+21'')]"
    unfolding pb String_js_10_21
    by (simp add: baseUrl_def init_def replace_http_ws_def js_def)
  show ?thesis
    using nan_store ne run_nan_state a1 a2 a3 px_store pne b1 big_store bne c1 c2 by blast
qed

subsection \<open>Live connections\<close>

lemma filter_eq_upt: "filter (\<lambda>j. j = i) [0..<n] = (if i < n then [i] else [])"
  by (induction n) auto

lemma no_live_but_ids:
  "no_live_but k xs \<longleftrightarrow>
     (filter (\<lambda>i. live (xs ! i)) [0..<length xs] = [] \<or>
      map Some (filter (\<lambda>i. live (xs ! i)) [0..<length xs]) = [k])"
  (is "?L \<longleftrightarrow> ?E \<or> ?O")
proof
  assume l: ?L
  show "?E \<or> ?O"
  proof (cases "\<exists>i < length xs. live (xs ! i)")
    case False
    then have ?E by (simp add: filter_empty_conv)
    then show ?thesis ..
  next
    case True
    then obtain i where i: "i < length xs" "live (xs ! i)" by blast
    with l have k: "k = Some i" by (simp add: no_live_but_def)
    have "live (xs ! j) = (j = i)" if "j \<in> set [0..<length xs]" for j
    proof
      assume "live (xs ! j)"
      with l that have "k = Some j" by (simp add: no_live_but_def)
      with k show "j = i" by simp
    next
      assume "j = i"
      with i show "live (xs ! j)" by simp
    qed
    then have "filter (\<lambda>j. live (xs ! j)) [0..<length xs] = filter (\<lambda>j. j = i) [0..<length xs]"
      by (rule filter_cong [OF refl])
    then have ?O using i k by (simp add: filter_eq_upt)
    then show ?thesis ..
  qed
next
  assume r: "?E \<or> ?O"
  show ?L unfolding no_live_but_def
  proof (intro allI impI)
    fix i assume i: "i < length xs" "live (xs ! i)"
    then have m: "i \<in> set (filter (\<lambda>i. live (xs ! i)) [0..<length xs])" by simp
    then have "filter (\<lambda>i. live (xs ! i)) [0..<length xs] \<noteq> []" by (metis empty_iff empty_set)
    with r have o: ?O by blast
    then obtain j where j: "filter (\<lambda>i. live (xs ! i)) [0..<length xs] = [j]" "k = Some j"
      by (auto simp: map_eq_Cons_conv)
    from m show "k = Some i" unfolding j by simp
  qed
qed

lemma no_live_none: "no_live_but None xs \<longleftrightarrow> filter (\<lambda>i. live (xs ! i)) [0..<length xs] = []"
  by (auto simp: no_live_but_ids map_eq_Cons_conv)

lemma nth_update_cases: "i < length xs \<Longrightarrow> xs[j := y] ! i = (if i = j then y else xs ! i)"
  by (cases "i = j") simp_all

lemma no_live_update:
  "no_live_but k xs \<Longrightarrow> \<not> live y \<or> k = Some j \<Longrightarrow> no_live_but k (xs[j := y])"
  by (auto simp: no_live_but_def nth_update_cases)

lemma no_live_update_same:
  "no_live_but k xs \<Longrightarrow> live y = live (xs ! j) \<Longrightarrow> no_live_but k (xs[j := y])"
  by (auto simp: no_live_but_def nth_update_cases)

lemma no_live_closed:
  "no_live_but k xs \<Longrightarrow> k = Some j \<or> k = None \<Longrightarrow> \<not> live y \<Longrightarrow> no_live_but None (xs[j := y])"
  by (auto simp: no_live_but_def nth_update_cases)

lemma no_live_append:
  "no_live_but None xs \<Longrightarrow> no_live_but (Some (length xs)) (xs @ [w])"
  by (auto simp: no_live_but_def nth_append)

lemma length_live_ids:
  assumes "no_live_but k xs"
  shows "length (filter (\<lambda>i. live (xs ! i)) [0..<length xs]) \<le> 1"
proof -
  let ?ids = "filter (\<lambda>i. live (xs ! i)) [0..<length xs]"
  from assms have "?ids = [] \<or> map Some ?ids = [k]" by (simp only: no_live_but_ids)
  then show ?thesis
  proof
    assume "?ids = []"
    then show ?thesis by simp
  next
    assume "map Some ?ids = [k]"
    then have "length (map Some ?ids) = length [k]" by (rule arg_cong)
    then show ?thesis by simp
  qed
qed

lemma connection_ok_alt:
  "connection_ok s \<longleftrightarrow>
     stable s \<and> no_live_but (owner s) (sockets s) \<and>
     (phase s = Fresh \<longrightarrow> conversationId s = None \<and> pendingCreate s = 0)"
proof (cases "phase s = Mounted")
  case True
  then show ?thesis
    by (auto simp: connection_ok_def live_ids_def owner_def no_live_but_ids)
next
  case False
  then show ?thesis
    by (auto simp: connection_ok_def live_ids_def owner_def no_live_none)
qed

lemma ready_live: "ready_of s i = Some CONNECTING \<or> ready_of s i = Some OPEN \<Longrightarrow>
   i < length (sockets s) \<and> live (sockets s ! i)"
  by (auto simp: ready_of_def live_def split: if_splits)

lemma conn_ws_close:
  assumes "no_live_but k (sockets s)" and "k = Some j \<or> k = None"
  shows "no_live_but None (sockets (ws_close j s))"
proof (cases "j < length (sockets s)")
  case True
  let ?y = "if readyState (sockets s ! j) = CONNECTING \<or> readyState (sockets s ! j) = OPEN
            then (sockets s ! j)\<lparr>readyState := CLOSING\<rparr> else sockets s ! j"
  have "\<not> live ?y" by (simp add: live_def)
  with assms have "no_live_but None ((sockets s)[j := ?y])" by (rule no_live_closed)
  then show ?thesis using True by (simp add: ws_close_def emit_def)
next
  case False
  with assms have "no_live_but None (sockets s)"
    by (auto simp: no_live_but_def)
  then show ?thesis using False by (simp add: ws_close_def)
qed

lemma conn_ws_cleanup:
  assumes "no_live_but (owner s) (sockets s)"
  shows "no_live_but None (sockets (ws_cleanup s))"
proof (cases "cleanup s")
  case None
  with assms show ?thesis by (simp add: ws_cleanup_def owner_def split: if_splits)
next
  case (Some j)
  let ?t = "emit [ConsoleLog ''Cleaning up WebSocket...''] s"
  have "no_live_but (owner s) (sockets ?t)" using assms by (simp add: emit_def)
  moreover have "owner s = Some j \<or> owner s = None" using Some by (simp add: owner_def)
  ultimately have "no_live_but None (sockets (ws_close j ?t))" by (rule conn_ws_close)
  then show ?thesis using Some by (simp add: ws_cleanup_def)
qed

lemma ws_cleanup_fields:
  "phase (ws_cleanup s) = phase s" "conversationId (ws_cleanup s) = conversationId s"
  "length (sockets (ws_cleanup s)) = length (sockets s)" "cleanup (ws_cleanup s) = None"
  by (simp_all add: ws_cleanup_def ws_close_def emit_def split: option.splits)

lemma conn_effects:
  assumes "no_live_but None (sockets t)" and "phase t = Mounted"
  shows "no_live_but (owner (ws_effect c (history_effect c t)))
           (sockets (ws_effect c (history_effect c t)))"
proof (cases c)
  case None
  with assms show ?thesis by (simp add: ws_effect_def history_effect_def owner_def)
next
  case (Some i)
  from assms(1) have "no_live_but (Some (length (sockets t)))
      (sockets t @ [\<lparr>url = replace_http_ws (baseUrl t) @ js ''/ws/chat?conversation_id='' @ String_js i,
                     readyState = CONNECTING, sent = []\<rparr>])"
    by (rule no_live_append)
  then show ?thesis using Some assms(2)
    by (simp add: ws_effect_def history_effect_def emit_def owner_def Let_def baseUrl_def
        del: String_js.simps)
qed

lemma conn_commit:
  assumes "no_live_but (owner s) (sockets s)"
  shows "no_live_but (owner (commit s)) (sockets (commit s))"
proof (cases "phase s = Mounted \<and> conversationId s \<noteq> deps s")
  case True
  have "no_live_but None (sockets (ws_cleanup s))" using assms by (rule conn_ws_cleanup)
  moreover have "phase (ws_cleanup s) = Mounted" using True by (simp add: ws_cleanup_fields)
  ultimately have m: "no_live_but (owner (ws_effect (conversationId s) (history_effect (conversationId s) (ws_cleanup s))))
           (sockets (ws_effect (conversationId s) (history_effect (conversationId s) (ws_cleanup s))))"
    by (rule conn_effects)
  let ?X = "ws_effect (conversationId s) (history_effect (conversationId s) (ws_cleanup s))"
  have c: "commit s = ?X\<lparr>deps := conversationId s\<rparr>" using True by (simp add: commit_def)
  have o: "owner (?X\<lparr>deps := conversationId s\<rparr>) = owner ?X" by (simp add: owner_def)
  have k: "sockets (?X\<lparr>deps := conversationId s\<rparr>) = sockets ?X" by simp
  show ?thesis using m by (simp only: c o k)
next
  case False
  then have "commit s = s" by (auto simp: commit_def)
  with assms show ?thesis by simp
qed

lemma sockets_mount: "conversationId s = None \<Longrightarrow> sockets (mount s) = sockets s"
  by (simp add: handler_defs Let_def split: option.splits)

lemma conn_sendMessage:
  assumes "no_live_but k (sockets s)"
  shows "no_live_but k (sockets (sendMessage s))"
proof (cases "not_connected s")
  case True
  then show ?thesis using assms by (simp add: sendMessage_not_connected)
next
  case conn: False
  show ?thesis
  proof (cases "trim (input s) = []")
    case True
    with conn assms show ?thesis by (simp add: sendMessage_blank)
  next
    case False
    from conn obtain ws where ws: "socketRef s = Some ws" "ready_of s ws = Some OPEN"
      by (auto simp: not_connected_def split: option.splits)
    have "no_live_but k ((sockets s)
        [ws := (sockets s ! ws)\<lparr>sent := sent (sockets s ! ws) @ [trim (input s)]\<rparr>])"
      using assms by (rule no_live_update_same) (simp add: live_def)
    then show ?thesis by (simp add: sendMessage_open [OF ws False])
  qed
qed

lemma sendMessage_fields:
  "phase (sendMessage s) = phase s" "cleanup (sendMessage s) = cleanup s"
  "conversationId (sendMessage s) = conversationId s"
  "length (sockets (sendMessage s)) = length (sockets s)"
  by (simp_all add: handler_defs Let_def split: option.splits ready_state.splits)

lemma owner_same: "phase t = phase s \<Longrightarrow> cleanup t = cleanup s \<Longrightarrow> owner t = owner s"
  by (simp add: owner_def)

lemma conn_same:
  "no_live_but (owner s) (sockets s) \<Longrightarrow> phase t = phase s \<Longrightarrow> cleanup t = cleanup s \<Longrightarrow>
   sockets t = sockets s \<Longrightarrow> no_live_but (owner t) (sockets t)"
  by (cases "phase s = Mounted") (simp_all add: owner_def)

lemma conn_handle:
  assumes n: "no_live_but (owner s) (sockets s)"
    and f: "phase s = Fresh \<longrightarrow> conversationId s = None \<and> pendingCreate s = 0"
    and en: "enabled e s"
  shows "no_live_but (owner (handle e s)) (sockets (handle e s))"
proof (cases e)
  case Mount
  with en f have c: "conversationId s = None" and ph: "phase s = Fresh" by simp_all
  from n ph have "no_live_but None (sockets s)" by (simp add: owner_def)
  then show ?thesis using Mount c
    by (simp add: owner_def sockets_mount mount_fields)
next
  case Unmount
  have "no_live_but None (sockets (ws_cleanup s))" using n by (rule conn_ws_cleanup)
  then show ?thesis using Unmount by (simp add: unmount_def owner_def)
next
  case (CreateResolved x)
  then show ?thesis by (intro conn_same [OF n]) (simp_all add: handler_defs Let_def)
next
  case CreateRejected
  then show ?thesis by (intro conn_same [OF n]) (simp_all add: handler_defs)
next
  case (HistoryResolved x)
  then show ?thesis by (intro conn_same [OF n]) (simp_all add: handler_defs Let_def)
next
  case HistoryRejected
  then show ?thesis by (intro conn_same [OF n]) (simp_all add: handler_defs)
next
  case (WsOpen i)
  with en have "i < length (sockets s) \<and> live (sockets s ! i)"
    by (intro ready_live) simp
  with n have "owner s = Some i" by (simp add: no_live_but_def)
  with n have "no_live_but (owner s) ((sockets s)[i := (sockets s ! i)\<lparr>readyState := OPEN\<rparr>])"
    by (intro no_live_update) simp_all
  moreover have "owner (handle e s) = owner s"
    using WsOpen by (intro owner_same) (simp_all add: handler_defs)
  ultimately show ?thesis using WsOpen by (simp add: handler_defs)
next
  case (WsMessage i d)
  then show ?thesis by (intro conn_same [OF n]) (simp_all add: handler_defs)
next
  case (WsClose i)
  from n have "no_live_but (owner s) ((sockets s)[i := (sockets s ! i)\<lparr>readyState := CLOSED\<rparr>])"
    by (rule no_live_update) (simp add: live_def)
  moreover have "owner (handle e s) = owner s"
    using WsClose by (intro owner_same) (simp_all add: handler_defs)
  ultimately show ?thesis using WsClose by (simp add: handler_defs)
next
  case (WsFail i)
  from n have "no_live_but (owner s) ((sockets s)[i := (sockets s ! i)\<lparr>readyState := CLOSED\<rparr>])"
    by (rule no_live_update) (simp add: live_def)
  moreover have "owner (handle e s) = owner s"
    using WsFail by (intro owner_same) (simp_all add: handler_defs)
  ultimately show ?thesis using WsFail by (simp add: handler_defs)
next
  case (ChangeInput v)
  then show ?thesis by (intro conn_same [OF n]) simp_all
next
  case ClickSend
  have "owner (sendMessage s) = owner s" by (intro owner_same) (simp_all add: sendMessage_fields)
  then show ?thesis using ClickSend conn_sendMessage [OF n] by simp
next
  case (KeyDown k)
  have "owner (sendMessage s) = owner s" by (intro owner_same) (simp_all add: sendMessage_fields)
  then show ?thesis using KeyDown conn_sendMessage [OF n] n
    by (simp add: handleKeyDown_def)
qed

lemma fresh_handle:
  assumes "phase s = Fresh \<longrightarrow> conversationId s = None \<and> pendingCreate s = 0"
    and "enabled e s"
  shows "phase (handle e s) = Fresh \<longrightarrow>
         conversationId (handle e s) = None \<and> pendingCreate (handle e s) = 0"
proof (cases e)
  case Mount
  then show ?thesis by (simp add: mount_fields)
next
  case Unmount
  then show ?thesis by (simp add: unmount_def)
next
  case (CreateResolved n)
  with assms show ?thesis by (auto simp: create_then_fields)
next
  case CreateRejected
  with assms show ?thesis by (auto simp: handler_defs)
next
  case ClickSend
  with assms show ?thesis by (simp add: sendMessage_fields)
next
  case (KeyDown k)
  with assms show ?thesis by (simp add: sendMessage_fields handleKeyDown_def)
qed (use assms in \<open>simp_all add: handler_defs Let_def\<close>)

lemma length_handle:
  assumes "phase s = Fresh \<longrightarrow> conversationId s = None \<and> pendingCreate s = 0" and "enabled e s"
  shows "length (sockets (handle e s)) = length (sockets s)"
proof (cases e)
  case Mount
  with assms show ?thesis by (simp add: sockets_mount)
next
  case Unmount
  then show ?thesis by (simp add: unmount_def ws_cleanup_fields)
next
  case ClickSend
  then show ?thesis by (simp add: sendMessage_fields)
next
  case (KeyDown k)
  then show ?thesis by (simp add: handleKeyDown_def sendMessage_fields)
qed (simp_all add: handler_defs Let_def)

lemma deps_handle:
  assumes "stable s" and "enabled e s" and "phase (handle e s) = Mounted"
  shows "deps (handle e s) = conversationId s"
proof (cases e)
  case Mount
  then show ?thesis by (simp add: mount_fields)
next
  case Unmount
  with assms(3) show ?thesis by (simp add: unmount_def)
next
  case (CreateResolved n)
  with assms show ?thesis by (simp add: create_then_fields stable_def)
next
  case CreateRejected
  with assms show ?thesis using handle_frame [of e s] by (simp add: stable_def del: handle.simps)
next
  case (HistoryResolved x)
  with assms show ?thesis using handle_frame [of e s] by (simp add: stable_def del: handle.simps)
next
  case HistoryRejected
  with assms show ?thesis using handle_frame [of e s] by (simp add: stable_def del: handle.simps)
next
  case (WsOpen i)
  with assms show ?thesis using handle_frame [of e s] by (simp add: stable_def del: handle.simps)
next
  case (WsMessage i d)
  with assms show ?thesis using handle_frame [of e s] by (simp add: stable_def del: handle.simps)
next
  case (WsClose i)
  with assms show ?thesis using handle_frame [of e s] by (simp add: stable_def del: handle.simps)
next
  case (WsFail i)
  with assms show ?thesis using handle_frame [of e s] by (simp add: stable_def del: handle.simps)
next
  case (ChangeInput v)
  with assms show ?thesis using handle_frame [of e s] by (simp add: stable_def del: handle.simps)
next
  case ClickSend
  with assms show ?thesis using handle_frame [of e s] by (simp add: stable_def del: handle.simps)
next
  case (KeyDown k)
  with assms show ?thesis using handle_frame [of e s] by (simp add: stable_def del: handle.simps)
qed

lemma connection_ok_step:
  assumes "connection_ok s" and "enabled e s"
  shows "connection_ok (step e s)"
proof -
  from assms(1) have n: "no_live_but (owner s) (sockets s)"
    and f: "phase s = Fresh \<longrightarrow> conversationId s = None \<and> pendingCreate s = 0"
    by (simp_all add: connection_ok_alt)
  have "no_live_but (owner (handle e s)) (sockets (handle e s))"
    using n f assms(2) by (rule conn_handle)
  then have "no_live_but (owner (step e s)) (sockets (step e s))"
    unfolding step_def by (rule conn_commit)
  moreover have "phase (step e s) = Fresh \<longrightarrow>
      conversationId (step e s) = None \<and> pendingCreate (step e s) = 0"
    using fresh_handle [OF f assms(2)] by (simp add: step_def commit_fields)
  ultimately show ?thesis by (simp add: connection_ok_alt stable_step)
qed

lemma connection_ok_init: "connection_ok (init env store)"
  by (simp add: connection_ok_def live_ids_def stable_def init_def)

lemma run_connection_ok: "run es (init env store) = Some s \<Longrightarrow> connection_ok s"
  by (erule run_invariant) (simp_all add: connection_ok_init connection_ok_step)

lemma connection_ok_live: "connection_ok s \<Longrightarrow> length (live_ids s) \<le> 1"
  unfolding live_ids_def by (rule length_live_ids [of "owner s"]) (simp add: connection_ok_alt)

lemma commit_fire:
  "phase x = Mounted \<Longrightarrow> conversationId x \<noteq> deps x \<Longrightarrow>
   commit x = (ws_effect (conversationId x) (history_effect (conversationId x) (ws_cleanup x)))
                \<lparr>deps := conversationId x\<rparr>"
  by (simp add: commit_def)

lemma sockets_commit:
  "sockets (commit x) =
     (if phase x = Mounted \<and> conversationId x \<noteq> deps x
      then (case conversationId x of
              None \<Rightarrow> sockets (ws_cleanup x)
            | Some i \<Rightarrow> sockets (ws_cleanup x) @
                [\<lparr>url = replace_http_ws (baseUrl x) @ js ''/ws/chat?conversation_id='' @ String_js i,
                  readyState = CONNECTING, sent = []\<rparr>])
      else sockets x)"
  by (simp add: commit_def ws_effect_def history_effect_def ws_cleanup_def ws_close_def emit_def
      baseUrl_def Let_def split: option.splits del: String_js.simps)

lemma trace_commit:
  "phase x = Mounted \<Longrightarrow> conversationId x \<noteq> deps x \<Longrightarrow> conversationId x = Some i \<Longrightarrow>
   trace (commit x) =
     trace (ws_cleanup x) @
     [ConsoleLog ''Fetching messages for convo:'',
      Fetch GET (baseUrl x @ js ''/conversations/'' @ String_js i @ js ''/messages''),
      ConsoleLog ''Opening WebSocket for conversation:'',
      NewWebSocket (length (sockets x))
        (replace_http_ws (baseUrl x) @ js ''/ws/chat?conversation_id='' @ String_js i)]"
  by (simp add: commit_def ws_effect_def history_effect_def ws_cleanup_def ws_close_def emit_def
      baseUrl_def Let_def split: option.splits del: String_js.simps)

lemma live_ids_cleanup:
  assumes "connection_ok s" and "enabled e s"
  shows "live_ids (ws_cleanup (handle e s)) = []"
proof -
  from assms(1) have n: "no_live_but (owner s) (sockets s)"
    and f: "phase s = Fresh \<longrightarrow> conversationId s = None \<and> pendingCreate s = 0"
    by (simp_all add: connection_ok_alt)
  have "no_live_but (owner (handle e s)) (sockets (handle e s))"
    using n f assms(2) by (rule conn_handle)
  then have "no_live_but None (sockets (ws_cleanup (handle e s)))" by (rule conn_ws_cleanup)
  then show ?thesis by (simp add: no_live_none live_ids_def)
qed

lemma step_fire:
  assumes "connection_ok s" and "enabled e s"
    and "phase (handle e s) = Mounted" and "conversationId (handle e s) \<noteq> conversationId s"
  shows "phase (handle e s) = Mounted \<and> conversationId (handle e s) \<noteq> deps (handle e s)"
proof -
  from assms(1) have "stable s" by (simp add: connection_ok_alt)
  then have "deps (handle e s) = conversationId s" using assms(2,3) by (rule deps_handle)
  with assms(3,4) show ?thesis by simp
qed

lemma step_new_socket:
  assumes c: "connection_ok s" and en: "enabled e s"
    and g: "length (sockets s) < length (sockets (step e s))"
  shows "conversationId (step e s) \<noteq> None \<and> conversationId (step e s) \<noteq> conversationId s
       \<and> live_ids (step e s) = [length (sockets s)]"
proof -
  let ?x = "handle e s"
  from c have st: "stable s"
    and f: "phase s = Fresh \<longrightarrow> conversationId s = None \<and> pendingCreate s = 0"
    by (simp_all add: connection_ok_alt)
  have l: "length (sockets ?x) = length (sockets s)" using f en by (rule length_handle)
  from g l have fire: "phase ?x = Mounted \<and> conversationId ?x \<noteq> deps ?x"
    and some: "conversationId ?x \<noteq> None"
    by (auto simp: step_def sockets_commit ws_cleanup_fields split: if_splits option.splits)
  then obtain i where i: "conversationId ?x = Some i" by blast
  have d: "deps ?x = conversationId s" using st en fire by (intro deps_handle) simp_all
  have sk: "sockets (step e s) = sockets (ws_cleanup ?x) @
      [\<lparr>url = replace_http_ws (baseUrl ?x) @ js ''/ws/chat?conversation_id='' @ String_js i,
        readyState = CONNECTING, sent = []\<rparr>]"
    using fire i by (simp add: step_def sockets_commit del: String_js.simps)
  have len: "length (sockets (ws_cleanup ?x)) = length (sockets s)"
    by (simp add: ws_cleanup_fields l)
  have none: "no_live_but None (sockets (ws_cleanup ?x))"
    using live_ids_cleanup [OF c en] by (simp add: no_live_none live_ids_def)
  have "live_ids (step e s) = [length (sockets s)]"
  proof -
    have "filter (\<lambda>j. live (sockets (step e s) ! j)) [0..<length (sockets s)] = []"
      using none len by (auto simp: filter_empty_conv sk nth_append no_live_but_def)
    moreover have "live (sockets (step e s) ! length (sockets s))"
      using len by (simp add: sk nth_append live_def)
    ultimately show ?thesis using len by (simp add: live_ids_def sk)
  qed
  then show ?thesis using fire i d by (simp add: step_def commit_fields)
qed

lemma step_Unmount_live:
  assumes "connection_ok s" and "enabled Unmount s"
  shows "live_ids (step Unmount s) = [] \<and> length (sockets (step Unmount s)) = length (sockets s)"
proof -
  from assms(1) have n: "no_live_but (owner s) (sockets s)"
    and f: "phase s = Fresh \<longrightarrow> conversationId s = None \<and> pendingCreate s = 0"
    by (simp_all add: connection_ok_alt)
  have "stable (unmount s)" by (simp add: stable_def unmount_def)
  then have eq: "step Unmount s = unmount s" by (simp add: step_def commit_stable)
  have "no_live_but (owner (handle Unmount s)) (sockets (handle Unmount s))"
    using n f assms(2) by (rule conn_handle)
  moreover have "owner (unmount s) = None" by (simp add: owner_def unmount_def)
  ultimately have "live_ids (unmount s) = []" by (simp add: no_live_none live_ids_def)
  moreover have "length (sockets (unmount s)) = length (sockets s)"
    by (simp add: unmount_def ws_cleanup_fields)
  ultimately show ?thesis by (simp only: eq)
qed

lemma step_closed:
  assumes "connection_ok s" and "enabled e s" and "e = WsClose i \<or> e = WsFail i"
  shows "i \<notin> set (live_ids (step e s)) \<and> length (sockets (step e s)) = length (sockets s)"
proof -
  from assms(1) have st: "stable s" by (simp add: connection_ok_alt)
  from assms(2,3) have i: "i < length (sockets s)"
    by (auto simp: ready_of_def split: if_splits)
  have "step e s = handle e s" using st assms(3) by (intro step_handle) auto
  moreover have "sockets (handle e s) = (sockets s)[i := (sockets s ! i)\<lparr>readyState := CLOSED\<rparr>]"
    using assms(3) by (auto simp: handler_defs)
  ultimately show ?thesis using i by (simp add: live_ids_def live_def)
qed

text \<open>
  C8. A connection is live while its socket is connecting or open. In every state a
  session can reach at most one connection is live, and it is the one the cleanup
  function of the WebSocket effect will close. For every state \<open>s\<close> of which that
  holds (\<open>connection_ok\<close>), reachable or not, and every event \<open>e\<close> the browser can
  deliver: the same holds after \<open>e\<close>. If \<open>e\<close> changes the identifier of a mounted page, the
  effects run again: first the cleanup, after which no connection is live, then the
  history effect and the WebSocket effect; a socket that is opened is the last effect
  of the step. A socket is opened by a step only if that step has changed the
  identifier to a present one, and it is then the only live connection. Unmounting
  leaves no live connection and opens none. After a close or an error of socket \<open>i\<close>
  that socket is not live and no socket is opened: there is no reconnect.
\<close>

theorem C8_single_live_connection:
  "(run es (init env store) = Some r \<longrightarrow> connection_ok r \<and> length (live_ids r) \<le> 1)
   \<and> (connection_ok s \<and> enabled e s \<longrightarrow>
        connection_ok (step e s)
      \<and> length (live_ids (step e s)) \<le> 1
      \<and> (phase (handle e s) = Mounted \<and> conversationId (handle e s) \<noteq> conversationId s \<longrightarrow>
           live_ids (ws_cleanup (handle e s)) = []
         \<and> step e s =
             (ws_effect (conversationId (handle e s))
               (history_effect (conversationId (handle e s)) (ws_cleanup (handle e s))))
               \<lparr>deps := conversationId (handle e s)\<rparr>
         \<and> (conversationId (handle e s) = Some c \<longrightarrow>
              trace (step e s) =
                trace (ws_cleanup (handle e s)) @
                [ConsoleLog ''Fetching messages for convo:'',
                 Fetch GET (baseUrl s @ js ''/conversations/'' @ String_js c @ js ''/messages''),
                 ConsoleLog ''Opening WebSocket for conversation:'',
                 NewWebSocket (length (sockets s))
                   (replace_http_ws (baseUrl s) @ js ''/ws/chat?conversation_id='' @ String_js c)]))
      \<and> (length (sockets s) < length (sockets (step e s)) \<longrightarrow>
           conversationId (step e s) \<noteq> None \<and> conversationId (step e s) \<noteq> conversationId s
         \<and> live_ids (step e s) = [length (sockets s)])
      \<and> (e = Unmount \<longrightarrow>
           live_ids (step e s) = [] \<and> length (sockets (step e s)) = length (sockets s))
      \<and> (e = WsClose i \<or> e = WsFail i \<longrightarrow>
           i \<notin> set (live_ids (step e s)) \<and> length (sockets (step e s)) = length (sockets s)))"
proof -
  have one: "connection_ok r \<and> length (live_ids r) \<le> 1" if "run es (init env store) = Some r"
    using that by (blast intro: connection_ok_live run_connection_ok)
  have two: "connection_ok (step e s) \<and> length (live_ids (step e s)) \<le> 1"
    if "connection_ok s" "enabled e s"
    using that by (blast intro: connection_ok_step connection_ok_live)
  have three: "live_ids (ws_cleanup (handle e s)) = []
         \<and> step e s =
             (ws_effect (conversationId (handle e s))
               (history_effect (conversationId (handle e s)) (ws_cleanup (handle e s))))
               \<lparr>deps := conversationId (handle e s)\<rparr>
         \<and> (conversationId (handle e s) = Some c \<longrightarrow>
              trace (step e s) =
                trace (ws_cleanup (handle e s)) @
                [ConsoleLog ''Fetching messages for convo:'',
                 Fetch GET (baseUrl s @ js ''/conversations/'' @ String_js c @ js ''/messages''),
                 ConsoleLog ''Opening WebSocket for conversation:'',
                 NewWebSocket (length (sockets s))
                   (replace_http_ws (baseUrl s) @ js ''/ws/chat?conversation_id='' @ String_js c)])"
    if c: "connection_ok s" and en: "enabled e s"
      and ch: "phase (handle e s) = Mounted" "conversationId (handle e s) \<noteq> conversationId s"
  proof -
    from c have f: "phase s = Fresh \<longrightarrow> conversationId s = None \<and> pendingCreate s = 0"
      by (simp add: connection_ok_alt)
    have fire: "phase (handle e s) = Mounted \<and> conversationId (handle e s) \<noteq> deps (handle e s)"
      using c en ch by (rule step_fire)
    have l: "length (sockets (handle e s)) = length (sockets s)" using f en by (rule length_handle)
    have b: "baseUrl (handle e s) = baseUrl s" by (simp add: baseUrl_def apiUrl_handle)
    have "trace (step e s) =
                trace (ws_cleanup (handle e s)) @
                [ConsoleLog ''Fetching messages for convo:'',
                 Fetch GET (baseUrl s @ js ''/conversations/'' @ String_js c @ js ''/messages''),
                 ConsoleLog ''Opening WebSocket for conversation:'',
                 NewWebSocket (length (sockets s))
                   (replace_http_ws (baseUrl s) @ js ''/ws/chat?conversation_id='' @ String_js c)]"
      if h: "conversationId (handle e s) = Some c"
    proof -
      from fire have p1: "phase (handle e s) = Mounted"
        and p2: "conversationId (handle e s) \<noteq> deps (handle e s)" by simp_all
      from trace_commit [OF p1 p2 h] show ?thesis by (simp only: step_def l b)
    qed
    moreover have "step e s =
             (ws_effect (conversationId (handle e s))
               (history_effect (conversationId (handle e s)) (ws_cleanup (handle e s))))
               \<lparr>deps := conversationId (handle e s)\<rparr>"
      unfolding step_def using fire by (intro commit_fire) simp_all
    ultimately show ?thesis using live_ids_cleanup [OF c en] by blast
  qed
  show ?thesis
    using one two three step_new_socket [of s e] step_Unmount_live [of s] step_closed [of s e i]
    by blast
qed

lemma rebind_ok: "connection_ok rebind_state"
  by (simp add: rebind_state_def open_state_def connection_ok_def live_ids_def live_def
      stable_def eval_defs)

lemma rebind_enabled: "enabled (CreateResolved 2) rebind_state"
  by (simp add: rebind_state_def)

lemma rebind_changes:
  "phase (handle (CreateResolved 2) rebind_state) = Mounted"
  "conversationId (handle (CreateResolved 2) rebind_state) = Some (JInt 2)"
  "conversationId rebind_state = Some (JInt 1)"
  "length (sockets rebind_state) = 1"
  by (simp_all add: rebind_state_def open_state_def eval_defs to_double_safe)

lemma rebind_trace:
  "trace (step (CreateResolved 2) rebind_state) =
     trace rebind_state @
     [SetItem storageKey (js ''2''),
      ConsoleLog ''Created conversation id:'',
      ConsoleLog ''Cleaning up WebSocket...'',
      Close 0,
      ConsoleLog ''Fetching messages for convo:'',
      Fetch GET (js ''http://127.0.0.1:8000/conversations/2/messages''),
      ConsoleLog ''Opening WebSocket for conversation:'',
      NewWebSocket 1 (js ''ws://127.0.0.1:8000/ws/chat?conversation_id=2'')]"
  "map readyState (sockets (step (CreateResolved 2) rebind_state)) = [CLOSING, CONNECTING]"
  by (simp_all add: rebind_state_def open_state_def eval_defs string_defs to_double_safe
      decimal_def digits.simps digitChar_def)

lemma open_state_ok: "connection_ok open_state"
  by (simp add: open_state_def connection_ok_def live_ids_def live_def stable_def eval_defs)

lemma open_state_enabled: "enabled Unmount open_state" "enabled (WsFail 0) open_state"
  by (simp_all add: open_state_def eval_defs)

theorem C8_witness:
  "run [Mount, CreateResolved 1, WsOpen 0] (init None Map.empty) = Some open_state
   \<and> length (live_ids open_state) \<le> 1
   \<and> connection_ok rebind_state \<and> enabled (CreateResolved 2) rebind_state
   \<and> phase (handle (CreateResolved 2) rebind_state) = Mounted
   \<and> conversationId (handle (CreateResolved 2) rebind_state) = Some (JInt 2)
   \<and> conversationId rebind_state = Some (JInt 1)
   \<and> live_ids (ws_cleanup (handle (CreateResolved 2) rebind_state)) = []
   \<and> length (sockets (step (CreateResolved 2) rebind_state)) = 2
   \<and> live_ids (step (CreateResolved 2) rebind_state) = [1]
   \<and> map readyState (sockets (step (CreateResolved 2) rebind_state)) = [CLOSING, CONNECTING]
   \<and> trace (step (CreateResolved 2) rebind_state) =
       trace rebind_state @
       [SetItem storageKey (js ''2''),
        ConsoleLog ''Created conversation id:'',
        ConsoleLog ''Cleaning up WebSocket...'',
        Close 0,
        ConsoleLog ''Fetching messages for convo:'',
        Fetch GET (js ''http://127.0.0.1:8000/conversations/2/messages''),
        ConsoleLog ''Opening WebSocket for conversation:'',
        NewWebSocket 1 (js ''ws://127.0.0.1:8000/ws/chat?conversation_id=2'')]
   \<and> connection_ok open_state \<and> enabled Unmount open_state \<and> enabled (WsFail 0) open_state
   \<and> live_ids (step Unmount open_state) = []
   \<and> 0 \<notin> set (live_ids (step (WsFail 0) open_state))
   \<and> length (sockets (step (WsFail 0) open_state)) = length (sockets open_state)"
proof -
  note a = C8_single_live_connection [of "[Mount, CreateResolved 1, WsOpen 0]" None Map.empty
      open_state rebind_state "CreateResolved 2" "JInt 2" 0]
  note b = C8_single_live_connection [of "[]" None Map.empty "init None Map.empty"
      open_state Unmount "JInt 2" 0]
  note c = C8_single_live_connection [of "[]" None Map.empty "init None Map.empty"
      open_state "WsFail 0" "JInt 2" 0]
  have ne: "conversationId (handle (CreateResolved 2) rebind_state) \<noteq> conversationId rebind_state"
    by (simp only: rebind_changes) simp
  have len: "length (sockets (step (CreateResolved 2) rebind_state)) = 2"
    using arg_cong [OF rebind_trace(2), of length] by simp
  then have gr: "length (sockets rebind_state) < length (sockets (step (CreateResolved 2) rebind_state))"
    by (simp add: rebind_changes)
  from a run_open_state have 1: "length (live_ids open_state) \<le> 1" by blast
  from a rebind_ok rebind_enabled rebind_changes(1) ne
  have 2: "live_ids (ws_cleanup (handle (CreateResolved 2) rebind_state)) = []" by blast
  from a rebind_ok rebind_enabled gr
  have "live_ids (step (CreateResolved 2) rebind_state) = [length (sockets rebind_state)]" by blast
  then have 3: "live_ids (step (CreateResolved 2) rebind_state) = [1]"
    by (simp add: rebind_changes)
  from b open_state_ok open_state_enabled(1)
  have 4: "live_ids (step Unmount open_state) = []" by blast
  from c open_state_ok open_state_enabled(2)
  have 5: "0 \<notin> set (live_ids (step (WsFail 0) open_state))
      \<and> length (sockets (step (WsFail 0) open_state)) = length (sockets open_state)" by blast
  show ?thesis
    using run_open_state 1 rebind_ok rebind_enabled rebind_changes(1,2,3) 2 len 3 rebind_trace
      open_state_ok open_state_enabled 4 5
    by blast
qed

end
